theory Spec2Isabelle
  imports Complex_Main "HOL-Library.Word" "HOL-Library.Signed_Division"
begin

unbundle bit_operations_syntax

section \<open>The wave effect plugin (keyledsd/src/plugins/wave.cxx)\<close>

text \<open>
  The plugin precomputes a colour table of \<open>accuracy\<close> entries and one phase per key,
  and at every frame advances a time accumulator and copies, for every key, the entry of
  the colour table selected by the global phase minus the phase of the key.

  Machine integers are words: \<open>unsigned\<close> and \<open>int\<close> are 32 bits wide (\<open>int\<close> in two's
  complement, read with \<open>sint\<close>), \<open>unsigned long\<close> is 64 bits wide. Container sizes and
  indices of type \<open>std::size_t\<close> are natural numbers: they are bounded by the memory of
  the process and no expression of the source brings them near \<open>2 ^ 64\<close>.
\<close>

subsection \<open>Data\<close>

text \<open>\<open>static constexpr int accuracy = 1024\<close>.\<close>

definition accuracy :: "32 word" where
  "accuracy = 1024"

text \<open>
  Modelled from the spec: \<open>keyleds::RGBAColor\<close>, whose declaration (keyledsd/common.h)
  is not among the sources. An RGBA colour, each channel blendable on its own; the
  source names the channels \<open>red\<close>, \<open>green\<close>, \<open>blue\<close> and \<open>alpha\<close> and their type
  \<open>channel_type\<close>, an 8-bit unsigned integer (the values run from 0 to 255).
\<close>

record RGBAColor =
  red :: "8 word"
  green :: "8 word"
  blue :: "8 word"
  alpha :: "8 word"

text \<open>
  Modelled from the spec: \<open>keyleds::RenderTarget\<close>, whose declaration
  (keyledsd/RenderLoop.h) is not among the sources. The fixed-size, index-addressable
  buffer of colours of the device, with gaps between the blocks of the device: one
  contiguous array of colours and, for every block, the position in that array where
  the block starts. The plugin reads it through \<open>size()\<close>, \<open>operator[]\<close>, \<open>begin()\<close>,
  \<open>end()\<close>, \<open>get(bidx, kidx)\<close> and \<open>get(key_descriptor)\<close>; \<open>get\<close> addresses the slot
  at \<open>blocks[bidx] + kidx\<close>. A \<open>key_descriptor\<close> is the pair of a block index and a
  key index in that block.
\<close>

record RenderTarget =
  colors :: "RGBAColor list"
  blocks :: "nat list"

type_synonym key_descriptor = "nat \<times> nat"

text \<open>
  Modelled from the spec: \<open>KeyDatabase::Rect\<close>, \<open>KeyDatabase::Key\<close> and
  \<open>KeyDatabase::KeyGroup\<close>, whose declarations (keyledsd/KeyDatabase.h) are not among
  the sources. An element has a bounding box \<open>x0, y0, x1, y1\<close> and a stable index into
  the buffer, and elements come in named groups: a rectangle has four coordinates,
  taken as \<open>unsigned\<close>, a key has the descriptor of its slot in render targets and its
  rectangle, a group has a name and its keys in order.
\<close>

record Rect =
  x0 :: "32 word"
  y0 :: "32 word"
  x1 :: "32 word"
  y1 :: "32 word"

record Key =
  index :: key_descriptor
  position :: Rect

record KeyGroup =
  name :: string
  keys :: "Key list"

text \<open>Everything that stops the code: exceptions, failed assertions and undefined accesses.\<close>

datatype error =
    InvalidArgument
  | OutOfRange
  | ColorParseError
  | DivisionByZero
  | AssertionFailed
  | ColorTableOutOfBounds
  | BufferOutOfBounds
  | LengthError

text \<open>The members of \<open>WavePlugin\<close>.\<close>

record WavePlugin =
  m_buffer :: RenderTarget
  m_keys :: KeyGroup
  m_phases :: "32 word list"
  m_colors :: "RGBAColor list"
  m_time :: "32 word"
  m_period :: "32 word"
  m_length :: "32 word"
  m_direction :: "32 word"

subsection \<open>\<open>WavePlugin::render\<close>\<close>

text \<open>
  \<open>m_time += ms; if (m_time >= m_period) { m_time -= m_period; }\<close> with
  \<open>unsigned long ms\<close> and \<open>unsigned m_time\<close>: the sum is taken in 64 bits and stored
  back in 32 bits.
\<close>

definition advance_time :: "64 word \<Rightarrow> 32 word \<Rightarrow> 32 word \<Rightarrow> 32 word" where
  "advance_time ms period time =
     (let time' = (ucast ((ucast time :: 64 word) + ms) :: 32 word)
      in if time' \<ge> period then time' - period else time')"

text \<open>
  \<open>int t = accuracy * m_time / m_period\<close>: the product and the quotient are unsigned,
  32 bits wide.
\<close>

definition global_phase :: "32 word \<Rightarrow> 32 word \<Rightarrow> 32 word" where
  "global_phase time period = (accuracy * time) div period"

text \<open>
  \<open>int tphi = t - m_phases[idx]; if (tphi < 0) { tphi += accuracy; }\<close>: the difference
  is taken in 32 bits and read as a signed value.
\<close>

definition local_phase :: "32 word \<Rightarrow> 32 word \<Rightarrow> 32 word" where
  "local_phase t phase =
     (let tphi = t - phase in if tphi <s 0 then tphi + accuracy else tphi)"

text \<open>\<open>m_colors[tphi]\<close>: an access outside the table is undefined, an error here.\<close>

definition color_at :: "RGBAColor list \<Rightarrow> 32 word \<Rightarrow> error + RGBAColor" where
  "color_at table tphi =
     (if 0 \<le> sint tphi \<and> nat (sint tphi) < length table
      then Inr (table ! nat (sint tphi))
      else Inl ColorTableOutOfBounds)"

text \<open>\<open>m_buffer.get(descriptor)\<close>: the slot \<open>blocks[bidx] + kidx\<close> of the colour array.\<close>

definition slot_of :: "RenderTarget \<Rightarrow> key_descriptor \<Rightarrow> error + nat" where
  "slot_of target d =
     (if fst d < length (blocks target) \<and> blocks target ! fst d + snd d < length (colors target)
      then Inr (blocks target ! fst d + snd d)
      else Inl BufferOutOfBounds)"

text \<open>
  The loop of the whole-buffer mode, over the indices \<open>idx\<close> still to visit:
  \<open>m_buffer[idx] = m_colors[tphi]\<close>. The assertion before the loop makes \<open>m_phases[idx]\<close>
  an access in range.
\<close>

fun render_all :: "RGBAColor list \<Rightarrow> 32 word \<Rightarrow> 32 word list \<Rightarrow> nat list \<Rightarrow> RGBAColor list
                   \<Rightarrow> error + RGBAColor list" where
  "render_all table t phases [] buf = Inr buf"
| "render_all table t phases (idx # rest) buf =
     (case color_at table (local_phase t (phases ! idx)) of
        Inl e \<Rightarrow> Inl e
      | Inr c \<Rightarrow> render_all table t phases rest (buf[idx := c]))"

text \<open>
  The loop of the group mode: \<open>m_buffer.get(m_keys[idx].index) = m_colors[tphi]\<close>.
\<close>

fun render_keys :: "RGBAColor list \<Rightarrow> 32 word \<Rightarrow> 32 word list \<Rightarrow> Key list \<Rightarrow> nat list
                    \<Rightarrow> RenderTarget \<Rightarrow> error + RenderTarget" where
  "render_keys table t phases ks [] target = Inr target"
| "render_keys table t phases ks (idx # rest) target =
     (case color_at table (local_phase t (phases ! idx)) of
        Inl e \<Rightarrow> Inl e
      | Inr c \<Rightarrow>
         (case slot_of target (index (ks ! idx)) of
            Inl e \<Rightarrow> Inl e
          | Inr slot \<Rightarrow>
              render_keys table t phases ks rest
                (target\<lparr>colors := (colors target)[slot := c]\<rparr>)))"

text \<open>
  The body of \<open>render\<close> up to the call of \<open>blend\<close>: the new state of the plugin. A
  period of zero stops the division, a failed assertion stops the call.
\<close>

definition render_buffer :: "64 word \<Rightarrow> WavePlugin \<Rightarrow> error + WavePlugin" where
  "render_buffer ms s =
     (let time = advance_time ms (m_period s) (m_time s) in
      if m_period s = 0 then Inl DivisionByZero
      else
        let t = global_phase time (m_period s) in
        if keys (m_keys s) = [] then
          if length (colors (m_buffer s)) \<noteq> length (m_phases s) then Inl AssertionFailed
          else
            (case render_all (m_colors s) t (m_phases s)
                    [0..<length (colors (m_buffer s))] (colors (m_buffer s)) of
               Inl e \<Rightarrow> Inl e
             | Inr buf \<Rightarrow> Inr (s\<lparr>m_time := time, m_buffer := (m_buffer s)\<lparr>colors := buf\<rparr>\<rparr>))
        else
          if length (keys (m_keys s)) \<noteq> length (m_phases s) then Inl AssertionFailed
          else
            (case render_keys (m_colors s) t (m_phases s) (keys (m_keys s))
                    [0..<length (keys (m_keys s))] (m_buffer s) of
               Inl e \<Rightarrow> Inl e
             | Inr target \<Rightarrow> Inr (s\<lparr>m_time := time, m_buffer := target\<rparr>)))"

text \<open>
  \<open>render\<close> itself: the new state and the target after \<open>blend(target, m_buffer)\<close>.
  \<open>blend\<close>, the composition step of the output buffer provider, is not among the
  sources: it is a parameter.
\<close>

definition render :: "(RenderTarget \<Rightarrow> RenderTarget \<Rightarrow> RenderTarget) \<Rightarrow> 64 word \<Rightarrow> RenderTarget
                      \<Rightarrow> WavePlugin \<Rightarrow> error + (WavePlugin \<times> RenderTarget)" where
  "render blend ms target s =
     (case render_buffer ms s of
        Inl e \<Rightarrow> Inl e
      | Inr s' \<Rightarrow> Inr (s', blend target (m_buffer s')))"


text \<open>
  The render loop calls \<open>render\<close> once per frame: a sequence of calls, each with its own
  elapsed time, stopping at the first one that fails.
\<close>

fun renders :: "64 word list \<Rightarrow> WavePlugin \<Rightarrow> error + WavePlugin" where
  "renders [] s = Inr s"
| "renders (ms # rest) s =
     (case render_buffer ms s of Inl e \<Rightarrow> Inl e | Inr s' \<Rightarrow> renders rest s')"

subsection \<open>\<open>WavePlugin::computePhases\<close>\<close>

text \<open>
  Modelled from the spec: \<open>keyleds::DeviceManager\<close> and \<open>keyleds::KeyDatabase\<close>, whose
  declarations (keyledsd/DeviceManager.h, keyledsd/KeyDatabase.h) are not among the
  sources. The geometry provider as the plugin sees it: the key codes of every block of
  the device (\<open>device().blocks()\<close>, each with its \<open>keys()\<close>), the key database
  (\<open>keyDB()\<close>, with its keys and the overall bounding box \<open>bounds()\<close>) and the render
  target that \<open>getRenderTarget()\<close> makes. \<open>keyDB().find(descriptor)\<close> is the first key
  of the database with that descriptor, if any.
\<close>

record KeyDatabase =
  db_keys :: "Key list"
  bounds :: Rect

record DeviceManager =
  device_blocks :: "8 word list list"
  keyDB :: KeyDatabase
  getRenderTarget :: RenderTarget

definition keyDB_find :: "KeyDatabase \<Rightarrow> key_descriptor \<Rightarrow> Key option" where
  "keyDB_find db d = find (\<lambda>k. index k = d) (db_keys db)"

text \<open>
  The \<open>int\<close> division and remainder of C++ truncate towards zero; the operands here are
  the 32-bit values read as signed.
\<close>

definition sdiv32 :: "32 word \<Rightarrow> 32 word \<Rightarrow> 32 word" where
  "sdiv32 a b = word_of_int (sint a sdiv sint b)"

definition smod32 :: "32 word \<Rightarrow> 32 word \<Rightarrow> 32 word" where
  "smod32 a b = word_of_int (sint a smod sint b)"

text \<open>\<open>(position.x0 + position.x1) / 2\<close>, in unsigned arithmetic.\<close>

definition midpoint :: "32 word \<Rightarrow> 32 word \<Rightarrow> 32 word" where
  "midpoint a b = (a + b) div 2"

text \<open>
  \<open>x = accuracy * (x - bounds.x0) / (bounds.x1 - bounds.x0)\<close> and
  \<open>y = accuracy - accuracy * (y - bounds.x0) / (bounds.x1 - bounds.x0)\<close>, as the source
  has them in both loops: the coordinates of the bounds are unsigned, so are the
  differences, the products and the quotients.
\<close>

definition normalize_x :: "Rect \<Rightarrow> 32 word \<Rightarrow> 32 word" where
  "normalize_x b x = accuracy * (x - x0 b) div (x1 b - x0 b)"

definition normalize_y :: "Rect \<Rightarrow> 32 word \<Rightarrow> 32 word" where
  "normalize_y b y = accuracy - accuracy * (y - x0 b) div (x1 b - x0 b)"

text \<open>
  \<open>auto val = (freqX * x + freqY * y) / accuracy % accuracy;
  if (val < 0) { val += accuracy; }\<close> on \<open>int\<close>; products and sum wrap around.
\<close>

definition phase_value :: "32 word \<Rightarrow> 32 word \<Rightarrow> 32 word \<Rightarrow> 32 word \<Rightarrow> 32 word" where
  "phase_value freqX freqY x y =
     (let val = smod32 (sdiv32 (freqX * x + freqY * y) accuracy) accuracy
      in if val <s 0 then val + accuracy else val)"

text \<open>
  The phase of one key from its rectangle (the body both loops share): 0 for a key at
  the origin, the computed value otherwise. Bounds of width zero stop the division.
\<close>

definition key_phase :: "32 word \<Rightarrow> 32 word \<Rightarrow> Rect \<Rightarrow> Rect \<Rightarrow> error + 32 word" where
  "key_phase freqX freqY b pos =
     (let x = midpoint (x0 pos) (x1 pos);
          y = midpoint (y0 pos) (y1 pos)
      in if x = 0 \<and> y = 0 then Inr 0
         else if x1 b - x0 b = 0 then Inl DivisionByZero
         else Inr (phase_value freqX freqY (normalize_x b x) (normalize_y b y)))"

text \<open>A warning of the log: block index, key index and key code of a key without geometry.\<close>

type_synonym warning = "nat \<times> nat \<times> 8 word"

text \<open>
  The inner loop of the whole-buffer mode, over the key indices \<open>kidx\<close> of one block
  still to visit; the phases and the warnings so far are carried along.
\<close>

fun block_phases :: "KeyDatabase \<Rightarrow> 32 word \<Rightarrow> 32 word \<Rightarrow> nat \<Rightarrow> 8 word list \<Rightarrow> nat list
                     \<Rightarrow> 32 word list \<times> warning list \<Rightarrow> error + (32 word list \<times> warning list)" where
  "block_phases db freqX freqY bidx codes [] acc = Inr acc"
| "block_phases db freqX freqY bidx codes (kidx # rest) acc =
     (case keyDB_find db (bidx, kidx) of
        None \<Rightarrow>
          block_phases db freqX freqY bidx codes rest
            (fst acc @ [0], snd acc @ [(bidx, kidx, codes ! kidx)])
      | Some key \<Rightarrow>
          (case key_phase freqX freqY (bounds db) (position key) of
             Inl e \<Rightarrow> Inl e
           | Inr val \<Rightarrow> block_phases db freqX freqY bidx codes rest (fst acc @ [val], snd acc)))"

text \<open>
  The filler after a block: \<open>nextPtr - curPtr\<close> zeros, where \<open>curPtr\<close> is the slot after
  the last key of the block and \<open>nextPtr\<close> the first slot of the next block, or the end
  of the buffer after the last block. A block the target does not have is an access out
  of bounds; a negative difference becomes a huge count and \<open>insert\<close> throws.
\<close>

definition filler :: "RenderTarget \<Rightarrow> nat \<Rightarrow> nat \<Rightarrow> nat \<Rightarrow> error + nat" where
  "filler target nblocks bidx nkeys =
     (if \<not> bidx < length (blocks target) then Inl BufferOutOfBounds
      else if bidx + 1 < nblocks \<and> \<not> bidx + 1 < length (blocks target) then Inl BufferOutOfBounds
      else
        let cur = int (blocks target ! bidx + nkeys);
            next = (if bidx + 1 < nblocks then int (blocks target ! (bidx + 1))
                    else int (length (colors target)))
        in if next - cur < 0 then Inl LengthError else Inr (nat (next - cur)))"

text \<open>The outer loop of the whole-buffer mode, over the block indices still to visit.\<close>

fun all_phases :: "DeviceManager \<Rightarrow> RenderTarget \<Rightarrow> 32 word \<Rightarrow> 32 word \<Rightarrow> nat list
                   \<Rightarrow> 32 word list \<times> warning list \<Rightarrow> error + (32 word list \<times> warning list)" where
  "all_phases manager target freqX freqY [] acc = Inr acc"
| "all_phases manager target freqX freqY (bidx # rest) acc =
     (let codes = device_blocks manager ! bidx in
      case block_phases (keyDB manager) freqX freqY bidx codes [0..<length codes] acc of
        Inl e \<Rightarrow> Inl e
      | Inr acc' \<Rightarrow>
          (case filler target (length (device_blocks manager)) bidx (length codes) of
             Inl e \<Rightarrow> Inl e
           | Inr n \<Rightarrow>
               all_phases manager target freqX freqY rest
                 (fst acc' @ replicate n 0, snd acc')))"

text \<open>The loop of the group mode, over the keys of the group.\<close>

fun group_phases :: "32 word \<Rightarrow> 32 word \<Rightarrow> Rect \<Rightarrow> Key list \<Rightarrow> 32 word list
                     \<Rightarrow> error + 32 word list" where
  "group_phases freqX freqY b [] phases = Inr phases"
| "group_phases freqX freqY b (key # rest) phases =
     (case key_phase freqX freqY b (position key) of
        Inl e \<Rightarrow> Inl e
      | Inr val \<Rightarrow> group_phases freqX freqY b rest (phases @ [val]))"

text \<open>
  \<open>computePhases\<close>. The two frequencies are computed in floating point with \<open>std::sin\<close>
  and \<open>std::cos\<close> from \<open>m_length\<close> and \<open>m_direction\<close> and converted to \<open>int\<close>: the
  function \<open>frequencies\<close> that gives them is a parameter. The result is the plugin with
  the new \<open>m_phases\<close>, and the warnings logged.
\<close>

definition computePhases :: "(32 word \<Rightarrow> 32 word \<Rightarrow> 32 word \<times> 32 word) \<Rightarrow> DeviceManager
                             \<Rightarrow> WavePlugin \<Rightarrow> error + (WavePlugin \<times> warning list)" where
  "computePhases frequencies manager s =
     (let freqX = fst (frequencies (m_length s) (m_direction s));
          freqY = snd (frequencies (m_length s) (m_direction s))
      in if keys (m_keys s) = [] then
           (case all_phases manager (m_buffer s) freqX freqY
                   [0..<length (device_blocks manager)] ([], []) of
              Inl e \<Rightarrow> Inl e
            | Inr acc \<Rightarrow> Inr (s\<lparr>m_phases := fst acc\<rparr>, snd acc))
         else
           (case group_phases freqX freqY (bounds (keyDB manager)) (keys (m_keys s)) [] of
              Inl e \<Rightarrow> Inl e
            | Inr phases \<Rightarrow> Inr (s\<lparr>m_phases := phases\<rparr>, [])))"


subsection \<open>Single-precision arithmetic\<close>

text \<open>
  \<open>generateColorTable\<close> interpolates in \<open>float\<close>. A finite \<open>float\<close> is a rational
  number, and every operation of IEEE 754 binary32 returns the exact result rounded to
  the nearest number with a significand of 24 bits (to the even one at a tie, and on
  the grid of \<open>2 ^ -149\<close> below \<open>2 ^ -126\<close>). The values of the table stay between 0 and
  510, far from the largest finite \<open>float\<close>, so that overflow to infinity is left out.
\<close>

fun bit_length :: "nat \<Rightarrow> nat" where
  "bit_length n = (if n = 0 then 0 else Suc (bit_length (n div 2)))"

declare bit_length.simps [simp del]

text \<open>The exponent of the binade of \<open>x\<close>: the largest \<open>e\<close> with \<open>2 ^ e \<le> \<bar>x\<bar>\<close>, at least -126.\<close>

definition float_exponent :: "rat \<Rightarrow> int" where
  "float_exponent x =
     (let a = \<bar>x\<bar>
      in max (- 126)
           (if 1 \<le> a then int (bit_length (nat \<lfloor>a\<rfloor>)) - 1
            else - int (bit_length (nat (\<lceil>1 / a\<rceil> - 1)))))"

definition round_half_even :: "rat \<Rightarrow> int" where
  "round_half_even x =
     (let f = \<lfloor>x\<rfloor>; d = x - of_int f
      in if d < 1 / 2 then f
         else if 1 / 2 < d then f + 1
         else if even f then f else f + 1)"

definition float_round :: "rat \<Rightarrow> rat" where
  "float_round x =
     (if x = 0 then 0
      else let q = 2 powi (float_exponent x - 23)
           in of_int (round_half_even (x / q)) * q)"

definition fadd :: "rat \<Rightarrow> rat \<Rightarrow> rat" where
  "fadd a b = float_round (a + b)"

definition fsub :: "rat \<Rightarrow> rat \<Rightarrow> rat" where
  "fsub a b = float_round (a - b)"

definition fmul :: "rat \<Rightarrow> rat \<Rightarrow> rat" where
  "fmul a b = float_round (a * b)"

definition fdiv :: "rat \<Rightarrow> rat \<Rightarrow> rat" where
  "fdiv a b = float_round (a / b)"

text \<open>The conversion of an integer to \<open>float\<close>.\<close>

definition float_of_nat :: "nat \<Rightarrow> rat" where
  "float_of_nat n = float_round (of_nat n)"

text \<open>
  \<open>RGBAColor::channel_type(f)\<close>: the conversion of a \<open>float\<close> to an 8-bit channel drops
  the fraction.
\<close>

definition channel_type :: "rat \<Rightarrow> 8 word" where
  "channel_type x = word_of_int (if 0 \<le> x then \<lfloor>x\<rfloor> else \<lceil>x\<rceil>)"

subsection \<open>\<open>WavePlugin::generateColorTable\<close>\<close>

text \<open>\<open>channel_type(colorA.c * (1.0f - ratio) + colorB.c * ratio)\<close> for one channel.\<close>

definition blend_channel :: "8 word \<Rightarrow> 8 word \<Rightarrow> rat \<Rightarrow> 8 word" where
  "blend_channel a b ratio =
     channel_type (fadd (fmul (float_of_nat (unat a)) (fsub 1 ratio))
                        (fmul (float_of_nat (unat b)) ratio))"

text \<open>The colour that the inner loop stores at \<open>idx\<close>.\<close>

definition table_entry :: "RGBAColor \<Rightarrow> RGBAColor \<Rightarrow> nat \<Rightarrow> nat \<Rightarrow> nat \<Rightarrow> RGBAColor" where
  "table_entry colorA colorB first lst idx =
     (let ratio = fdiv (float_of_nat (idx - first)) (float_of_nat (lst - first))
      in \<lparr>red = blend_channel (red colorA) (red colorB) ratio,
          green = blend_channel (green colorA) (green colorB) ratio,
          blue = blend_channel (blue colorA) (blue colorB) ratio,
          alpha = blend_channel (alpha colorA) (alpha colorB) ratio\<rparr>)"

text \<open>The inner loop, over the indices \<open>idx\<close> from \<open>first\<close> to \<open>last\<close> still to visit.\<close>

fun fill_range :: "RGBAColor \<Rightarrow> RGBAColor \<Rightarrow> nat \<Rightarrow> nat \<Rightarrow> nat list \<Rightarrow> RGBAColor list
                   \<Rightarrow> RGBAColor list" where
  "fill_range colorA colorB first lst [] table = table"
| "fill_range colorA colorB first lst (idx # rest) table =
     fill_range colorA colorB first lst rest
       (table[idx := table_entry colorA colorB first lst idx])"

text \<open>The outer loop, over the ranges still to visit.\<close>

fun fill_ranges :: "RGBAColor list \<Rightarrow> nat list \<Rightarrow> RGBAColor list \<Rightarrow> RGBAColor list" where
  "fill_ranges cs [] table = table"
| "fill_ranges cs (rng # rest) table =
     (let first = rng * length table div length cs;
          lst = (rng + 1) * length table div length cs;
          colorA = cs ! rng;
          colorB = cs ! (if rng + 1 \<ge> length cs then 0 else rng + 1)
      in fill_ranges cs rest (fill_range colorA colorB first lst [first..<lst] table))"

text \<open>
  \<open>generateColorTable\<close>: the table starts as \<open>accuracy\<close> value-initialised colours.
\<close>

definition generateColorTable :: "RGBAColor list \<Rightarrow> RGBAColor list" where
  "generateColorTable cs =
     fill_ranges cs [0..<length cs]
       (replicate (unat accuracy) \<lparr>red = 0, green = 0, blue = 0, alpha = 0\<rparr>)"

subsection \<open>The constructor\<close>

text \<open>
  \<open>std::stoul\<close> with base 10, as the C++ standard library defines it through
  \<open>strtoul\<close>: leading white space is skipped, one sign is accepted, the longest run of
  decimal digits is read and the rest ignored. No digit throws \<open>std::invalid_argument\<close>,
  a value that does not fit \<open>unsigned long\<close> throws \<open>std::out_of_range\<close>, and after a
  minus sign the value is negated in \<open>unsigned long\<close>.
\<close>

definition isspace :: "char \<Rightarrow> bool" where
  "isspace c \<longleftrightarrow> c \<in> set [CHR 0x20, CHR 0x09, CHR 0x0A, CHR 0x0B, CHR 0x0C, CHR 0x0D]"

definition digit_value :: "char \<Rightarrow> nat option" where
  "digit_value c =
     (let n = (of_char c :: nat) in if 48 \<le> n \<and> n \<le> 57 then Some (n - 48) else None)"

fun parse_digits :: "string \<Rightarrow> nat \<Rightarrow> nat" where
  "parse_digits [] acc = acc"
| "parse_digits (c # cs) acc =
     (case digit_value c of
        None \<Rightarrow> acc
      | Some d \<Rightarrow> parse_digits cs (10 * acc + d))"

definition stoul :: "string \<Rightarrow> error + 64 word" where
  "stoul str =
     (let s = dropWhile isspace str;
          negative = (case s of [] \<Rightarrow> False | c # _ \<Rightarrow> c = CHR ''-'');
          digits = (case s of [] \<Rightarrow> []
                    | c # cs \<Rightarrow> if c = CHR ''-'' \<or> c = CHR ''+'' then cs else s)
      in case digits of
           [] \<Rightarrow> Inl InvalidArgument
         | c # _ \<Rightarrow>
             if digit_value c = None then Inl InvalidArgument
             else
               let v = parse_digits digits 0
               in if 2 ^ 64 \<le> v then Inl OutOfRange
                  else Inr (if negative then - word_of_nat v else word_of_nat v))"

text \<open>
  Modelled from the spec: \<open>keyleds::Configuration::Plugin\<close>, whose declaration
  (keyledsd/Configuration.h) is not among the sources. The configuration provider
  exposes named string parameters: the plugin reads it through \<open>operator[]\<close>, which
  gives the string stored under a name, and \<open>items()\<close>, the pairs of a name and a string
  in order.
\<close>

record Configuration_Plugin =
  conf_value :: "string \<Rightarrow> string"
  items :: "(string \<times> string) list"

text \<open>
  The three scalar parameters: the member initialisers give 10000, 1000 and 0, and each
  is overwritten with the parsed value when \<open>value > 0\<close>. The parsed value is an
  \<open>unsigned long\<close> and the member an \<open>unsigned\<close>: the assignment keeps the low 32 bits.
\<close>

definition load_parameters :: "Configuration_Plugin \<Rightarrow> WavePlugin \<Rightarrow> error + WavePlugin" where
  "load_parameters conf s =
     (case stoul (conf_value conf ''period'') of
        Inl e \<Rightarrow> Inl e
      | Inr period \<Rightarrow>
          let s1 = (if 0 < period then s\<lparr>m_period := ucast period\<rparr> else s) in
          (case stoul (conf_value conf ''length'') of
             Inl e \<Rightarrow> Inl e
           | Inr len \<Rightarrow>
               let s2 = (if 0 < len then s1\<lparr>m_length := ucast len\<rparr> else s1) in
               (case stoul (conf_value conf ''direction'') of
                  Inl e \<Rightarrow> Inl e
                | Inr direction \<Rightarrow>
                    Inr (if 0 < direction then s2\<lparr>m_direction := ucast direction\<rparr> else s2))))"

text \<open>
  The colour list: every item whose name starts with \<open>color\<close>, parsed by
  \<open>RGBAColor::parse\<close>, in the order of the items. \<open>RGBAColor::parse\<close> is not among the
  sources: it is a parameter, a function that gives a colour or fails.
\<close>

fun load_colors :: "(string \<Rightarrow> error + RGBAColor) \<Rightarrow> (string \<times> string) list \<Rightarrow> RGBAColor list
                    \<Rightarrow> error + RGBAColor list" where
  "load_colors parse [] cs = Inr cs"
| "load_colors parse (item # rest) cs =
     (if take 5 (fst item) = ''color'' then
        (case parse (snd item) of
           Inl e \<Rightarrow> Inl e
         | Inr c \<Rightarrow> load_colors parse rest (cs @ [c]))
      else load_colors parse rest cs)"

text \<open>The key list: the first group with the configured name, when the name is not empty.\<close>

definition load_keys :: "Configuration_Plugin \<Rightarrow> KeyGroup list \<Rightarrow> WavePlugin \<Rightarrow> WavePlugin" where
  "load_keys conf groups s =
     (let groupStr = conf_value conf ''group'' in
      if groupStr \<noteq> [] then
        (case find (\<lambda>g. name g = groupStr) groups of
           Some g \<Rightarrow> s\<lparr>m_keys := g\<rparr>
         | None \<Rightarrow> s)
      else s)"

text \<open>
  The constructor: member initialisers, parameters, colour table, key list, phases,
  and the buffer filled with \<open>RGBAColor{0, 0, 0, 0}\<close>.
\<close>

definition WavePlugin_init :: "DeviceManager \<Rightarrow> WavePlugin" where
  "WavePlugin_init manager =
     \<lparr>m_buffer = getRenderTarget manager,
      m_keys = \<lparr>name = [], keys = []\<rparr>,
      m_phases = [],
      m_colors = [],
      m_time = 0,
      m_period = 10000,
      m_length = 1000,
      m_direction = 0\<rparr>"

definition WavePlugin_new :: "(string \<Rightarrow> error + RGBAColor) \<Rightarrow> (32 word \<Rightarrow> 32 word \<Rightarrow> 32 word \<times> 32 word)
                              \<Rightarrow> DeviceManager \<Rightarrow> Configuration_Plugin \<Rightarrow> KeyGroup list
                              \<Rightarrow> error + (WavePlugin \<times> warning list)" where
  "WavePlugin_new parse frequencies manager conf groups =
     (case load_parameters conf (WavePlugin_init manager) of
        Inl e \<Rightarrow> Inl e
      | Inr s1 \<Rightarrow>
          (case load_colors parse (items conf) [] of
             Inl e \<Rightarrow> Inl e
           | Inr cs \<Rightarrow>
               let s2 = s1\<lparr>m_colors := generateColorTable cs\<rparr>;
                   s3 = load_keys conf groups s2
               in (case computePhases frequencies manager s3 of
                     Inl e \<Rightarrow> Inl e
                   | Inr (s4, warnings) \<Rightarrow>
                       Inr (s4\<lparr>m_buffer := (m_buffer s4)
                               \<lparr>colors := replicate (length (colors (m_buffer s4)))
                                            \<lparr>red = 0, green = 0, blue = 0, alpha = 0\<rparr>\<rparr>\<rparr>,
                            warnings))))"


section \<open>Notions used to state the properties\<close>

subsection \<open>The frame sampler\<close>

text \<open>The colour that the loops of \<open>render\<close> store for a key of phase \<open>phase\<close>.\<close>

definition sample :: "RGBAColor list \<Rightarrow> 32 word \<Rightarrow> 32 word \<Rightarrow> RGBAColor" where
  "sample table t phase = table ! nat (sint (local_phase t phase))"

text \<open>The slot of the buffer that \<open>get\<close> addresses for a key.\<close>

definition key_slot :: "RenderTarget \<Rightarrow> Key \<Rightarrow> nat" where
  "key_slot target k = blocks target ! fst (index k) + snd (index k)"

text \<open>
  The tables fit the elements: the colour table has \<open>accuracy\<close> entries, every phase is
  below \<open>accuracy\<close>, and there is one phase per slot of the buffer (whole-buffer mode) or
  one per key of the group, each key addressing a slot of the buffer (group mode).
\<close>

definition tables_fit :: "WavePlugin \<Rightarrow> bool" where
  "tables_fit s \<longleftrightarrow>
     length (m_colors s) = 1024 \<and>
     list_all (\<lambda>phase. phase < 1024) (m_phases s) \<and>
     (if keys (m_keys s) = [] then length (colors (m_buffer s)) = length (m_phases s)
      else length (keys (m_keys s)) = length (m_phases s) \<and>
           list_all (\<lambda>k. fst (index k) < length (blocks (m_buffer s)) \<and>
                          key_slot (m_buffer s) k < length (colors (m_buffer s)))
                    (keys (m_keys s)))"

text \<open>
  The sampler in the words of the specification, on natural numbers: the time advanced
  by the delta with the period subtracted once, the global phase \<open>N * time / period\<close>,
  and the local phase \<open>globalPhase - phase\<close> plus \<open>N\<close> when negative.
\<close>

definition spec_time :: "nat \<Rightarrow> nat \<Rightarrow> nat \<Rightarrow> nat" where
  "spec_time period time delta =
     (if period \<le> time + delta then time + delta - period else time + delta)"

definition spec_global_phase :: "nat \<Rightarrow> nat \<Rightarrow> nat" where
  "spec_global_phase period time = 1024 * time div period"

definition spec_local_phase :: "nat \<Rightarrow> nat \<Rightarrow> nat" where
  "spec_local_phase g phase =
     nat (if int g - int phase < 0 then int g - int phase + 1024 else int g - int phase)"

text \<open>
  Two states that differ at most in the colours of the slots that \<open>render\<close> overwrites:
  every slot in whole-buffer mode, the slots of the keys of the group in group mode.
\<close>

definition same_elsewhere :: "WavePlugin \<Rightarrow> WavePlugin \<Rightarrow> bool" where
  "same_elsewhere s s' \<longleftrightarrow>
     m_keys s' = m_keys s \<and> m_phases s' = m_phases s \<and> m_colors s' = m_colors s \<and>
     m_period s' = m_period s \<and> m_length s' = m_length s \<and> m_direction s' = m_direction s \<and>
     blocks (m_buffer s') = blocks (m_buffer s) \<and>
     length (colors (m_buffer s')) = length (colors (m_buffer s)) \<and>
     (keys (m_keys s) \<noteq> [] \<longrightarrow>
        (\<forall>p \<in> set [0..<length (colors (m_buffer s))].
           p \<notin> key_slot (m_buffer s) ` set (keys (m_keys s)) \<longrightarrow>
           colors (m_buffer s') ! p = colors (m_buffer s) ! p))"

subsection \<open>The phase table\<close>

text \<open>
  The normalisation of the Y coordinate in the words of the specification: against the
  bounds of the Y axis.
\<close>

definition spec_normalize_y :: "Rect \<Rightarrow> 32 word \<Rightarrow> 32 word" where
  "spec_normalize_y b y = accuracy - accuracy * (y - y0 b) div (y1 b - y0 b)"

text \<open>The phase that whole-buffer mode stores for the key \<open>kidx\<close> of block \<open>bidx\<close>.\<close>

definition entry_phase :: "KeyDatabase \<Rightarrow> 32 word \<Rightarrow> 32 word \<Rightarrow> key_descriptor \<Rightarrow> 32 word" where
  "entry_phase db freqX freqY d =
     (case keyDB_find db d of
        None \<Rightarrow> 0
      | Some key \<Rightarrow>
          (case key_phase freqX freqY (bounds db) (position key) of
             Inl e \<Rightarrow> 0
           | Inr val \<Rightarrow> val))"

text \<open>The keys of a block that the database does not know, as the warnings name them.\<close>

definition block_warnings :: "KeyDatabase \<Rightarrow> nat \<Rightarrow> 8 word list \<Rightarrow> nat list \<Rightarrow> warning list" where
  "block_warnings db bidx codes ks =
     map (\<lambda>kidx. (bidx, kidx, codes ! kidx))
         (filter (\<lambda>kidx. keyDB_find db (bidx, kidx) = None) ks)"

text \<open>
  The end of the slots of block \<open>bidx\<close>: the start of the next block, or the end of the
  buffer after the last block.
\<close>

definition block_end :: "RenderTarget \<Rightarrow> nat \<Rightarrow> nat \<Rightarrow> nat" where
  "block_end target nblocks bidx =
     (if bidx + 1 < nblocks then blocks target ! (bidx + 1) else length (colors target))"

text \<open>
  The layout of a render target made for a device: one start per block of the device,
  the first block at slot 0, and room for the keys of every block before the next block
  starts (or the buffer ends). A device without blocks has an empty buffer.
\<close>

definition target_fits :: "8 word list list \<Rightarrow> RenderTarget \<Rightarrow> bool" where
  "target_fits dev target \<longleftrightarrow>
     length (blocks target) = length dev \<and>
     (if dev = [] then colors target = [] else blocks target ! 0 = 0) \<and>
     list_all (\<lambda>bidx. blocks target ! bidx + length (dev ! bidx)
                        \<le> block_end target (length dev) bidx)
              [0..<length dev]"

text \<open>
  The part of the phase table that whole-buffer mode appends for one block: the phases
  of its keys and the filler up to the end of its slots.
\<close>

definition block_segment :: "DeviceManager \<Rightarrow> RenderTarget \<Rightarrow> 32 word \<Rightarrow> 32 word \<Rightarrow> nat \<Rightarrow> 32 word list" where
  "block_segment manager target freqX freqY bidx =
     map (\<lambda>kidx. entry_phase (keyDB manager) freqX freqY (bidx, kidx))
         [0..<length (device_blocks manager ! bidx)]
     @ replicate (block_end target (length (device_blocks manager)) bidx
                    - (blocks target ! bidx + length (device_blocks manager ! bidx))) 0"

text \<open>The colour with the same value \<open>v\<close> in the four channels.\<close>

definition grey :: "nat \<Rightarrow> RGBAColor" where
  "grey v = \<lparr>red = of_nat v, green = of_nat v, blue = of_nat v, alpha = of_nat v\<rparr>"

text \<open>
  The buffer after \<open>render\<close> when nothing goes wrong, for the global phase \<open>t\<close>: one
  sample per phase in whole-buffer mode, the samples of the keys written in turn over
  the old buffer in group mode.
\<close>

definition frame :: "WavePlugin \<Rightarrow> 32 word \<Rightarrow> RGBAColor list" where
  "frame s t =
     (if keys (m_keys s) = [] then map (sample (m_colors s) t) (m_phases s)
      else fold (\<lambda>i b. b[key_slot (m_buffer s) (keys (m_keys s) ! i)
                          := sample (m_colors s) t (m_phases s ! i)])
             [0..<length (keys (m_keys s))] (colors (m_buffer s)))"

text \<open>The global phase of the specification after the time has advanced by \<open>delta\<close>.\<close>

definition spec_phase_after :: "nat \<Rightarrow> nat \<Rightarrow> nat \<Rightarrow> nat" where
  "spec_phase_after period time delta = spec_global_phase period (spec_time period time delta)"

subsection \<open>Examples\<close>

text \<open>
  A colour table whose 1024 entries are all different, and a plugin in whole-buffer mode
  with a buffer of two slots, of phases 0 and 512.
\<close>

definition example_table :: "RGBAColor list" where
  "example_table =
     map (\<lambda>i. \<lparr>red = of_nat (i mod 256), green = of_nat (i div 256), blue = 0, alpha = 255\<rparr>)
         [0..<1024]"

definition example_state :: "32 word \<Rightarrow> 32 word \<Rightarrow> WavePlugin" where
  "example_state period time =
     \<lparr>m_buffer = \<lparr>colors = [grey 0, grey 0], blocks = [0]\<rparr>,
      m_keys = \<lparr>name = [], keys = []\<rparr>,
      m_phases = [0, 512],
      m_colors = example_table,
      m_time = time,
      m_period = period,
      m_length = 1000,
      m_direction = 0\<rparr>"

text \<open>
  A device of two blocks, with two keys and one key, and a buffer of eight slots where
  the blocks start at 0 and 4. The database knows the first key of each block, the
  second one at the origin; the bounds are wider than high.
\<close>

definition example_manager :: DeviceManager where
  "example_manager =
     \<lparr>device_blocks = [[10, 11], [12]],
      keyDB = \<lparr>db_keys = [\<lparr>index = (0, 0), position = \<lparr>x0 = 190, y0 = 40, x1 = 210, y1 = 60\<rparr>\<rparr>,
                           \<lparr>index = (1, 0), position = \<lparr>x0 = 0, y0 = 0, x1 = 0, y1 = 0\<rparr>\<rparr>],
               bounds = \<lparr>x0 = 0, y0 = 0, x1 = 400, y1 = 100\<rparr>\<rparr>,
      getRenderTarget = \<lparr>colors = replicate 8 (grey 0), blocks = [0, 4]\<rparr>\<rparr>"

text \<open>The frequencies of direction 0 and length 1000: \<open>freqX = 0\<close> and \<open>freqY = 1024\<close>.\<close>

definition example_frequencies :: "32 word \<Rightarrow> 32 word \<Rightarrow> 32 word \<times> 32 word" where
  "example_frequencies len direction = (0, 1024)"

text \<open>
  A configuration without colours whose scalar parameters are all \<open>0\<close> but the period,
  a list with one group, and a colour parser that is never called.
\<close>

definition example_conf :: "string \<Rightarrow> string \<Rightarrow> Configuration_Plugin" where
  "example_conf period grp =
     \<lparr>conf_value = (\<lambda>key. if key = ''period'' then period
                            else if key = ''group'' then grp else ''0''),
      items = []\<rparr>"

definition example_groups :: "KeyGroup list" where
  "example_groups =
     [\<lparr>name = ''arrows'',
       keys = [\<lparr>index = (0, 0), position = \<lparr>x0 = 190, y0 = 40, x1 = 210, y1 = 60\<rparr>\<rparr>]\<rparr>]"

definition example_parse :: "string \<Rightarrow> error + RGBAColor" where
  "example_parse str = Inl ColorParseError"

section \<open>The frame sampler\<close>

lemma unat_accuracy: "unat accuracy = 1024"
  by (simp add: accuracy_def)

lemma sint_32: "sint (w :: 32 word) = (if uint w < 2 ^ 31 then uint w else uint w - 2 ^ 32)"
proof -
  have b: "0 \<le> uint w" "uint w < 2 ^ 32"
    using uint_lt2p [of w] by simp_all
  have "sint w = take_bit 32 (uint w + 2 ^ 31) - 2 ^ 31"
    by (simp add: sint_uint signed_take_bit_eq_take_bit_shift)
  also have "\<dots> = (uint w + 2 ^ 31) mod 2 ^ 32 - 2 ^ 31"
    by (simp add: take_bit_eq_mod)
  also have "\<dots> = (if uint w < 2 ^ 31 then uint w else uint w - 2 ^ 32)"
  proof (cases "uint w < 2 ^ 31")
    case True
    then have "(uint w + 2 ^ 31) mod 2 ^ 32 = uint w + 2 ^ 31"
      using b by (intro mod_pos_pos_trivial) simp_all
    with True show ?thesis by simp
  next
    case False
    then have "(uint w + 2 ^ 31) mod 2 ^ 32 = uint w + 2 ^ 31 - 2 ^ 32"
      using b by (simp add: mod_pos_geq)
    with False show ?thesis by simp
  qed
  finally show ?thesis .
qed

lemma uint_sub_32:
  "uint ((a :: 32 word) - b) = (if uint b \<le> uint a then uint a - uint b else uint a - uint b + 2 ^ 32)"
proof -
  have ba: "0 \<le> uint a" "uint a < 2 ^ 32" using uint_lt2p [of a] by simp_all
  have bb: "0 \<le> uint b" "uint b < 2 ^ 32" using uint_lt2p [of b] by simp_all
  have e: "uint (a - b) = (uint a - uint b) mod 2 ^ 32"
    by (simp add: uint_word_ariths)
  show ?thesis
  proof (cases "uint b \<le> uint a")
    case True
    then have "(uint a - uint b) mod 2 ^ 32 = uint a - uint b"
      using True ba bb by (intro mod_pos_pos_trivial) linarith+
    with True e show ?thesis by simp
  next
    case False
    have "(uint a - uint b) mod 2 ^ 32 = (uint a - uint b + 2 ^ 32) mod 2 ^ 32"
      by (simp only: mod_add_self2)
    also have "\<dots> = uint a - uint b + 2 ^ 32"
      using False ba bb by (intro mod_pos_pos_trivial) linarith+
    finally show ?thesis using False e by simp
  qed
qed


lemma uint_add_32:
  "uint ((a :: 32 word) + b) = (if uint a + uint b < 2 ^ 32 then uint a + uint b else uint a + uint b - 2 ^ 32)"
proof -
  have ba: "0 \<le> uint a" "uint a < 2 ^ 32" using uint_lt2p [of a] by simp_all
  have bb: "0 \<le> uint b" "uint b < 2 ^ 32" using uint_lt2p [of b] by simp_all
  have e: "uint (a + b) = (uint a + uint b) mod 2 ^ 32"
    by (simp add: uint_word_ariths)
  show ?thesis
  proof (cases "uint a + uint b < 2 ^ 32")
    case True
    then have "(uint a + uint b) mod 2 ^ 32 = uint a + uint b"
      using ba bb by (intro mod_pos_pos_trivial) linarith+
    with True e show ?thesis by simp
  next
    case False
    have "(uint a + uint b) mod 2 ^ 32 = (uint a + uint b - 2 ^ 32) mod 2 ^ 32"
      by (simp only: minus_mod_self2)
    also have "\<dots> = uint a + uint b - 2 ^ 32"
      using False ba bb by (intro mod_pos_pos_trivial) linarith+
    finally show ?thesis using False e by simp
  qed
qed

lemma uint_accuracy: "uint accuracy = 1024"
  by (simp add: accuracy_def)

lemma local_phase_sint:
  assumes "t < 1024" "ph < 1024"
  shows "sint (local_phase t ph) =
           (if uint t < uint ph then uint t + 1024 - uint ph else uint t - uint ph)"
proof -
  have bt: "0 \<le> uint t" "uint t < 1024" using assms(1) by (simp_all add: word_less_def)
  have bp: "0 \<le> uint ph" "uint ph < 1024" using assms(2) by (simp_all add: word_less_def)
  show ?thesis
  proof (cases "uint t < uint ph")
    case True
    have d: "uint (t - ph) = uint t - uint ph + 2 ^ 32"
      using True by (simp add: uint_sub_32)
    have neg: "t - ph <s 0"
      by (simp add: word_sless_alt sint_32 d) (use True bt bp in linarith)
    have "uint (t - ph + accuracy) = uint t - uint ph + 1024"
      by (simp add: uint_add_32 d uint_accuracy) (use True bt bp in linarith)
    then have "sint (t - ph + accuracy) = uint t - uint ph + 1024"
      by (simp add: sint_32) (use True bt bp in linarith)
    with neg True show ?thesis by (simp add: local_phase_def)
  next
    case False
    have d: "uint (t - ph) = uint t - uint ph"
      using False by (simp add: uint_sub_32)
    have s: "sint (t - ph) = uint t - uint ph"
      by (simp add: sint_32 d) (use False bt bp in linarith)
    then have "\<not> t - ph <s 0"
      using False by (simp add: word_sless_alt)
    with s False show ?thesis by (simp add: local_phase_def)
  qed
qed

lemma local_phase_bounds:
  assumes "t < 1024" "ph < 1024"
  shows "0 \<le> sint (local_phase t ph)" "sint (local_phase t ph) < 1024"
proof -
  have bt: "0 \<le> uint t" "uint t < 1024" using assms(1) by (simp_all add: word_less_def)
  have bp: "0 \<le> uint ph" "uint ph < 1024" using assms(2) by (simp_all add: word_less_def)
  show "0 \<le> sint (local_phase t ph)" "sint (local_phase t ph) < 1024"
    by (simp_all add: local_phase_sint [OF assms]) (use bt bp in linarith)+
qed


lemma unat_ucast_32_64: "unat (ucast (w :: 32 word) :: 64 word) = unat w"
proof -
  have "unat w < 2 ^ 64" using unsigned_less [of w, where 'a=nat] by simp
  then show ?thesis by (simp add: unsigned_ucast_eq take_bit_eq_mod)
qed

lemma unat_ucast_64_32: "unat (ucast (w :: 64 word) :: 32 word) = unat w mod 2 ^ 32"
  by (simp add: unsigned_ucast_eq take_bit_eq_mod)

lemma unat_advance_sum:
  assumes "ms \<le> ucast (period :: 32 word)"
  shows "unat (ucast ((ucast (time :: 32 word) :: 64 word) + ms) :: 32 word)
           = (unat time + unat ms) mod 2 ^ 32"
proof -
  have bt: "unat time < 2 ^ 32" using unsigned_less [of time, where 'a=nat] by simp
  have bp: "unat period < 2 ^ 32" using unsigned_less [of period, where 'a=nat] by simp
  have "unat ms \<le> unat period"
    using assms by (simp add: word_le_nat_alt unat_ucast_32_64)
  then have "unat (ucast time :: 64 word) + unat ms < 2 ^ 64"
    using bt bp by (simp add: unat_ucast_32_64)
  then have "unat ((ucast time :: 64 word) + ms) = unat time + unat ms"
    by (simp add: unat_add_lem [THEN iffD1] unat_ucast_32_64)
  then show ?thesis by (simp add: unat_ucast_64_32)
qed

lemma advance_time_less:
  assumes "time < period" "ms \<le> ucast period"
  shows "advance_time ms period time < period"
proof -
  define t' where "t' = (ucast ((ucast time :: 64 word) + ms) :: 32 word)"
  have bt: "unat time < unat period" using assms(1) by (simp add: word_less_nat_alt)
  have bp: "unat period < 2 ^ 32" using unsigned_less [of period, where 'a=nat] by simp
  have bm: "unat ms \<le> unat period"
    using assms(2) by (simp add: word_le_nat_alt unat_ucast_32_64)
  have u: "unat t' = (unat time + unat ms) mod 2 ^ 32"
    unfolding t'_def by (rule unat_advance_sum [OF assms(2)])
  show ?thesis
  proof (cases "period \<le> t'")
    case True
    then have le: "unat period \<le> unat t'" by (simp add: word_le_nat_alt)
    have nowrap: "unat time + unat ms < 2 ^ 32"
    proof (rule ccontr)
      assume "\<not> unat time + unat ms < 2 ^ 32"
      then have "(unat time + unat ms) mod 2 ^ 32 = unat time + unat ms - 2 ^ 32"
        using bt bm bp by (simp add: mod_if)
      with u le bt bm bp show False by simp
    qed
    then have "unat t' = unat time + unat ms" using u by simp
    moreover have "unat (t' - period) = unat t' - unat period"
      using True by (rule unat_sub)
    ultimately have "unat (t' - period) < unat period" using bt bm by simp
    then show ?thesis using True by (simp add: advance_time_def t'_def word_less_nat_alt)
  next
    case False
    then show ?thesis by (simp add: advance_time_def t'_def)
  qed
qed

lemma advance_time_unat:
  assumes "ms \<le> ucast period" "unat time + unat ms < 2 ^ 32"
  shows "unat (advance_time ms period time) =
           (if unat period \<le> unat time + unat ms then unat time + unat ms - unat period
            else unat time + unat ms)"
proof -
  define t' where "t' = (ucast ((ucast time :: 64 word) + ms) :: 32 word)"
  have u: "unat t' = unat time + unat ms"
    unfolding t'_def using assms(2) by (simp add: unat_advance_sum [OF assms(1)])
  show ?thesis
  proof (cases "period \<le> t'")
    case True
    then have "unat (t' - period) = unat t' - unat period" by (rule unat_sub)
    with True u show ?thesis
      by (simp add: advance_time_def t'_def [symmetric] word_le_nat_alt)
  next
    case False
    with u show ?thesis
      by (simp add: advance_time_def t'_def [symmetric] word_le_nat_alt)
  qed
qed

lemma global_phase_less:
  assumes "time < period"
  shows "global_phase time period < 1024"
proof -
  have bt: "unat time < unat period" using assms by (simp add: word_less_nat_alt)
  have g: "unat (global_phase time period) = unat (accuracy * time) div unat period"
    by (simp add: global_phase_def unat_div)
  have "unat (accuracy * time) div unat period < 1024"
  proof (cases "1024 * unat time < 2 ^ 32")
    case True
    then have "unat (accuracy * time) = 1024 * unat time"
      by (simp add: unat_mult_lem [THEN iffD1] unat_accuracy)
    moreover have "1024 * unat time < 1024 * unat period" using bt by simp
    ultimately show ?thesis using bt by (simp add: less_mult_imp_div_less mult.commute)
  next
    case False
    then have "2 ^ 32 \<le> 1024 * unat period" using bt by simp
    moreover have "unat (accuracy * time) < 2 ^ 32"
      using unsigned_less [of "accuracy * time", where 'a=nat] by simp
    ultimately have "unat (accuracy * time) < 1024 * unat period" by linarith
    then show ?thesis by (simp add: less_mult_imp_div_less mult.commute)
  qed
  then show ?thesis by (simp add: word_less_nat_alt g)
qed

lemma global_phase_unat:
  assumes "1024 * unat time < 2 ^ 32"
  shows "unat (global_phase time period) = 1024 * unat time div unat period"
proof -
  have "unat (accuracy * time) = 1024 * unat time"
    using assms by (simp add: unat_mult_lem [THEN iffD1] unat_accuracy)
  then show ?thesis by (simp add: global_phase_def unat_div)
qed


lemma color_at_sample:
  assumes "t < 1024" "ph < 1024" "length table = 1024"
  shows "color_at table (local_phase t ph) = Inr (sample table t ph)"
  using local_phase_bounds [OF assms(1,2)] assms(3)
  by (simp add: color_at_def sample_def)

lemma render_all_fold:
  assumes "t < 1024" "length table = 1024" "\<forall>i\<in>set is. phases ! i < 1024"
  shows "render_all table t phases is buf
           = Inr (fold (\<lambda>i b. b[i := sample table t (phases ! i)]) is buf)"
  using assms(3)
proof (induction "is" arbitrary: buf)
  case Nil
  show ?case by simp
next
  case (Cons i rest)
  then have "phases ! i < 1024" by simp
  then have "color_at table (local_phase t (phases ! i)) = Inr (sample table t (phases ! i))"
    by (rule color_at_sample [OF assms(1) _ assms(2)])
  with Cons show ?case by simp
qed

lemma fold_update_upt:
  "n \<le> length buf \<Longrightarrow> fold (\<lambda>i b. b[i := g i]) [0..<n] buf = map g [0..<n] @ drop n buf"
proof (induction n)
  case 0
  show ?case by simp
next
  case (Suc n)
  then have n: "n < length buf" by simp
  have "fold (\<lambda>i b. b[i := g i]) [0..<Suc n] buf = (map g [0..<n] @ drop n buf)[n := g n]"
    using Suc by simp
  also have "\<dots> = map g [0..<n] @ (drop n buf)[0 := g n]"
    by (simp add: list_update_append)
  also have "(drop n buf)[0 := g n] = g n # drop (Suc n) buf"
    using n by (simp add: Cons_nth_drop_Suc [symmetric])
  finally show ?case by simp
qed

lemma render_all_map:
  assumes "t < 1024" "length table = 1024" "\<forall>ph\<in>set phases. ph < 1024"
    and "length buf = length phases"
  shows "render_all table t phases [0..<length buf] buf = Inr (map (sample table t) phases)"
proof -
  have "\<forall>i\<in>set [0..<length buf]. phases ! i < 1024"
    using assms(3,4) by simp
  then have "render_all table t phases [0..<length buf] buf
      = Inr (fold (\<lambda>i b. b[i := sample table t (phases ! i)]) [0..<length buf] buf)"
    by (rule render_all_fold [OF assms(1,2)])
  also have "fold (\<lambda>i b. b[i := sample table t (phases ! i)]) [0..<length buf] buf
      = map (\<lambda>i. sample table t (phases ! i)) [0..<length buf]"
    by (simp add: fold_update_upt)
  also have "\<dots> = map (sample table t) phases"
    using assms(4) by (intro nth_equalityI) simp_all
  finally show ?thesis .
qed


lemma key_slot_colors_update [simp]:
  "key_slot (target\<lparr>colors := c\<rparr>) k = key_slot target k"
  by (simp add: key_slot_def)

lemma slot_of_key_slot:
  assumes "fst (index k) < length (blocks target)" "key_slot target k < length (colors target)"
  shows "slot_of target (index k) = Inr (key_slot target k)"
  using assms by (simp add: slot_of_def key_slot_def)

lemma length_fold_update [simp]:
  "length (fold (\<lambda>i b. b[slot i := col i]) is b) = length b"
  by (induction "is" arbitrary: b) simp_all

lemma render_keys_fold:
  assumes "t < 1024" "length table = 1024"
    and "\<forall>i\<in>set is. phases ! i < 1024 \<and> fst (index (ks ! i)) < length (blocks target)
           \<and> key_slot target (ks ! i) < length (colors target)"
  shows "render_keys table t phases ks is target
           = Inr (target\<lparr>colors := fold (\<lambda>i b. b[key_slot target (ks ! i) := sample table t (phases ! i)])
                                      is (colors target)\<rparr>)"
  using assms(3)
proof (induction "is" arbitrary: target)
  case Nil
  show ?case by simp
next
  case (Cons i rest)
  let ?c = "sample table t (phases ! i)"
  let ?target = "target\<lparr>colors := (colors target)[key_slot target (ks ! i) := ?c]\<rparr>"
  from Cons.prems have i: "phases ! i < 1024" "fst (index (ks ! i)) < length (blocks target)"
      "key_slot target (ks ! i) < length (colors target)"
    by simp_all
  have c: "color_at table (local_phase t (phases ! i)) = Inr ?c"
    using i(1) by (rule color_at_sample [OF assms(1) _ assms(2)])
  have sl: "slot_of target (index (ks ! i)) = Inr (key_slot target (ks ! i))"
    using i(2,3) by (rule slot_of_key_slot)
  have "\<forall>j\<in>set rest. phases ! j < 1024 \<and> fst (index (ks ! j)) < length (blocks ?target)
           \<and> key_slot ?target (ks ! j) < length (colors ?target)"
    using Cons.prems by simp
  then have "render_keys table t phases ks rest ?target
      = Inr (?target\<lparr>colors := fold (\<lambda>i b. b[key_slot ?target (ks ! i) := sample table t (phases ! i)])
                                      rest (colors ?target)\<rparr>)"
    by (rule Cons.IH)
  with c sl show ?case by simp
qed

lemma fold_update_nth:
  assumes "p < length b"
  shows "fold (\<lambda>i b. b[slot i := col i]) is b ! p
           = (case find (\<lambda>i. slot i = p) (rev is) of None \<Rightarrow> b ! p | Some i \<Rightarrow> col i)"
proof (induction "is" rule: rev_induct)
  case Nil
  show ?case by simp
next
  case (snoc i rest)
  show ?case
  proof (cases "slot i = p")
    case True
    with assms show ?thesis by simp
  next
    case False
    with snoc show ?thesis by simp
  qed
qed

lemma render_buffer_frame:
  assumes fit: "tables_fit s" and t: "global_phase (advance_time ms (m_period s) (m_time s)) (m_period s) < 1024"
    and p: "m_period s \<noteq> 0"
  shows "render_buffer ms s
           = Inr (s\<lparr>m_time := advance_time ms (m_period s) (m_time s),
                    m_buffer := (m_buffer s)\<lparr>colors :=
                      frame s (global_phase (advance_time ms (m_period s) (m_time s)) (m_period s))\<rparr>\<rparr>)"
proof -
  let ?time = "advance_time ms (m_period s) (m_time s)"
  let ?t = "global_phase ?time (m_period s)"
  have len: "length (m_colors s) = 1024" using fit by (simp add: tables_fit_def)
  have ph: "\<forall>phase\<in>set (m_phases s). phase < 1024"
    using fit by (simp add: tables_fit_def list_all_iff)
  show ?thesis
  proof (cases "keys (m_keys s) = []")
    case True
    then have l: "length (colors (m_buffer s)) = length (m_phases s)"
      using fit by (simp add: tables_fit_def)
    have "render_all (m_colors s) ?t (m_phases s) [0..<length (colors (m_buffer s))]
            (colors (m_buffer s)) = Inr (map (sample (m_colors s) ?t) (m_phases s))"
      using t len ph l by (rule render_all_map)
    with True l p show ?thesis by (simp add: render_buffer_def frame_def Let_def)
  next
    case False
    then have l: "length (keys (m_keys s)) = length (m_phases s)"
      and ks: "\<forall>k\<in>set (keys (m_keys s)). fst (index k) < length (blocks (m_buffer s)) \<and>
                          key_slot (m_buffer s) k < length (colors (m_buffer s))"
      using fit by (simp_all add: tables_fit_def list_all_iff)
    have "\<forall>i\<in>set [0..<length (keys (m_keys s))]. m_phases s ! i < 1024
            \<and> fst (index (keys (m_keys s) ! i)) < length (blocks (m_buffer s))
            \<and> key_slot (m_buffer s) (keys (m_keys s) ! i) < length (colors (m_buffer s))"
      using ph ks l by simp
    then have "render_keys (m_colors s) ?t (m_phases s) (keys (m_keys s))
                 [0..<length (keys (m_keys s))] (m_buffer s)
          = Inr ((m_buffer s)\<lparr>colors := fold (\<lambda>i b. b[key_slot (m_buffer s) (keys (m_keys s) ! i)
                          := sample (m_colors s) ?t (m_phases s ! i)])
             [0..<length (keys (m_keys s))] (colors (m_buffer s))\<rparr>)"
      by (rule render_keys_fold [OF t len])
    with False l p show ?thesis by (simp add: render_buffer_def frame_def Let_def)
  qed
qed

lemma period_nonzero: "(time :: 32 word) < period \<Longrightarrow> period \<noteq> 0"
  by (auto simp: word_less_nat_alt)

lemma render_buffer_ok:
  assumes "tables_fit s" "m_time s < m_period s" "ms \<le> ucast (m_period s)"
  shows "render_buffer ms s
           = Inr (s\<lparr>m_time := advance_time ms (m_period s) (m_time s),
                    m_buffer := (m_buffer s)\<lparr>colors :=
                      frame s (global_phase (advance_time ms (m_period s) (m_time s)) (m_period s))\<rparr>\<rparr>)"
proof -
  have "advance_time ms (m_period s) (m_time s) < m_period s"
    using assms(2,3) by (rule advance_time_less)
  then have "global_phase (advance_time ms (m_period s) (m_time s)) (m_period s) < 1024"
    by (rule global_phase_less)
  moreover have "m_period s \<noteq> 0" using assms(2) by (rule period_nonzero)
  ultimately show ?thesis using assms(1) by (intro render_buffer_frame)
qed

lemma sample_spec:
  assumes "t < 1024" "ph < 1024"
  shows "sample table t ph = table ! spec_local_phase (unat t) (unat ph)"
proof -
  have "sint (local_phase t ph)
      = (if int (unat t) - int (unat ph) < 0 then int (unat t) - int (unat ph) + 1024
         else int (unat t) - int (unat ph))"
    by (simp add: local_phase_sint [OF assms])
  then show ?thesis by (simp add: sample_def spec_local_phase_def)
qed

lemma render_all_no_color_error:
  assumes "t < 1024" "length table = 1024" "\<forall>i\<in>set is. phases ! i < 1024"
  shows "render_all table t phases is buf \<noteq> Inl ColorTableOutOfBounds"
  by (simp add: render_all_fold [OF assms])

lemma render_keys_no_color_error:
  assumes "t < 1024" "length table = 1024" "\<forall>i\<in>set is. phases ! i < 1024"
  shows "render_keys table t phases ks is target \<noteq> Inl ColorTableOutOfBounds"
  using assms(3)
proof (induction "is" arbitrary: target)
  case Nil
  show ?case by simp
next
  case (Cons i rest)
  then have "phases ! i < 1024" by simp
  then have c: "color_at table (local_phase t (phases ! i)) = Inr (sample table t (phases ! i))"
    by (rule color_at_sample [OF assms(1) _ assms(2)])
  show ?case
  proof (cases "slot_of target (index (ks ! i))")
    case (Inl e)
    then have "e = BufferOutOfBounds" by (simp add: slot_of_def split: if_splits)
    with Inl c show ?thesis by simp
  next
    case (Inr slot)
    with c Cons show ?thesis by simp
  qed
qed

text \<open>
  Claim C10. When every entry of the phase table is below \<open>accuracy\<close>, the colour table
  has \<open>accuracy\<close> entries and the global phase \<open>t\<close> of the call is below \<open>accuracy\<close>,
  the index \<open>t - phase\<close>, plus \<open>accuracy\<close> when negative, is at least 0 and below the
  length of the colour table for every phase of the table, and \<open>render\<close> never reads
  outside the colour table, in whole-buffer mode and in group mode.
\<close>

theorem render_color_access_in_bounds:
  assumes "list_all (\<lambda>phase. phase < 1024) (m_phases s)"
    and "length (m_colors s) = unat accuracy"
    and "global_phase (advance_time ms (m_period s) (m_time s)) (m_period s) < 1024"
  shows "list_all (\<lambda>phase.
             0 \<le> sint (local_phase (global_phase (advance_time ms (m_period s) (m_time s)) (m_period s)) phase)
           \<and> nat (sint (local_phase (global_phase (advance_time ms (m_period s) (m_time s)) (m_period s)) phase))
               < length (m_colors s)) (m_phases s)
         \<and> render_buffer ms s \<noteq> Inl ColorTableOutOfBounds"
proof -
  let ?t = "global_phase (advance_time ms (m_period s) (m_time s)) (m_period s)"
  have len: "length (m_colors s) = 1024" using assms(2) by (simp add: unat_accuracy)
  have ph: "\<forall>phase\<in>set (m_phases s). phase < 1024"
    using assms(1) by (simp add: list_all_iff)
  have "\<forall>phase\<in>set (m_phases s). 0 \<le> sint (local_phase ?t phase)
          \<and> nat (sint (local_phase ?t phase)) < length (m_colors s)"
  proof
    fix phase assume "phase \<in> set (m_phases s)"
    then have "phase < 1024" using ph by simp
    from local_phase_bounds [OF assms(3) this] len
    show "0 \<le> sint (local_phase ?t phase) \<and> nat (sint (local_phase ?t phase)) < length (m_colors s)"
      by simp
  qed
  then have first: "list_all (\<lambda>phase. 0 \<le> sint (local_phase ?t phase)
           \<and> nat (sint (local_phase ?t phase)) < length (m_colors s)) (m_phases s)"
    by (simp add: list_all_iff)
  have "render_buffer ms s \<noteq> Inl ColorTableOutOfBounds"
  proof (cases "keys (m_keys s) = []")
    case True
    show ?thesis
    proof (cases "length (colors (m_buffer s)) = length (m_phases s)")
      case l: True
      have "\<forall>i\<in>set [0..<length (colors (m_buffer s))]. m_phases s ! i < 1024"
        using ph l by simp
      from render_all_fold [OF assms(3) len this]
      show ?thesis using True l by (simp add: render_buffer_def Let_def)
    next
      case False
      with True show ?thesis by (simp add: render_buffer_def Let_def)
    qed
  next
    case False
    show ?thesis
    proof (cases "length (keys (m_keys s)) = length (m_phases s)")
      case l: True
      have "\<forall>i\<in>set [0..<length (keys (m_keys s))]. m_phases s ! i < 1024"
        using ph l by simp
      from render_keys_no_color_error [OF assms(3) len this]
      show ?thesis using False l
        by (auto simp: render_buffer_def Let_def split: sum.splits)
    next
      case l: False
      with False show ?thesis by (simp add: render_buffer_def Let_def)
    qed
  qed
  with first show ?thesis by simp
qed

lemma fold_update_untouched:
  "p \<notin> slot ` set is \<Longrightarrow> fold (\<lambda>i b. b[slot i := col i]) is b ! p = b ! p"
  by (induction "is" arbitrary: b) auto

lemma fold_update_last_write:
  assumes "idx < n" "\<forall>j<n. idx < j \<longrightarrow> slot j \<noteq> slot idx" "slot idx < length b"
  shows "fold (\<lambda>i b. b[slot i := col i]) [0..<n] b ! slot idx = col idx"
  using assms(1,2)
proof (induction n)
  case 0
  then show ?case by simp
next
  case (Suc n)
  show ?case
  proof (cases "idx = n")
    case True
    with assms(3) show ?thesis by simp
  next
    case False
    with Suc.prems have lt: "idx < n" and ne: "slot n \<noteq> slot idx" by simp_all
    have "\<forall>j<n. idx < j \<longrightarrow> slot j \<noteq> slot idx" using Suc.prems(2) by simp
    with lt have "fold (\<lambda>i b. b[slot i := col i]) [0..<n] b ! slot idx = col idx"
      by (rule Suc.IH)
    with ne show ?thesis by simp
  qed
qed

lemma length_frame:
  assumes "tables_fit s"
  shows "length (frame s t) = length (colors (m_buffer s))"
  using assms by (simp add: frame_def tables_fit_def)

lemma same_elsewhere_frame:
  assumes "tables_fit s"
  shows "same_elsewhere s (s\<lparr>m_time := time, m_buffer := (m_buffer s)\<lparr>colors := frame s t\<rparr>\<rparr>)"
proof -
  have "frame s t ! p = colors (m_buffer s) ! p"
    if "keys (m_keys s) \<noteq> []" "p \<notin> key_slot (m_buffer s) ` set (keys (m_keys s))" for p
  proof -
    have "p \<notin> (\<lambda>i. key_slot (m_buffer s) (keys (m_keys s) ! i)) ` set [0..<length (keys (m_keys s))]"
      using that(2) by auto
    then show ?thesis using that(1) by (simp add: frame_def fold_update_untouched)
  qed
  then show ?thesis using assms by (simp add: same_elsewhere_def length_frame)
qed

text \<open>
  Claim C1, amended. For a call of \<open>render\<close> with a delta of at most one period, on a
  plugin whose time is below the period and whose tables fit its elements, and as long as
  the 32-bit arithmetic does not wrap around (time plus delta stays below \<open>2 ^ 32\<close>, and
  so does \<open>N\<close> times the new time): the time becomes the old time plus the delta, less
  the period once when the sum reaches it; the global phase is \<open>N * time / period\<close>
  rounded down; in whole-buffer mode slot \<open>i\<close> of the buffer receives the entry of the
  colour table at the global phase minus \<open>phase[i]\<close>, plus \<open>N\<close> when negative; in group
  mode the slot of every key receives that entry for the phase of the key (for a slot
  that several keys address, of the last of them), and every other slot is unchanged.
\<close>

theorem render_samples_frame:
  assumes "tables_fit s" and "m_time s < m_period s" and "ms \<le> ucast (m_period s)"
    and "unat (m_time s) + unat ms < 2 ^ 32"
    and "1024 * spec_time (unat (m_period s)) (unat (m_time s)) (unat ms) < 2 ^ 32"
  shows "\<exists>s'. render blend ms target s = Inr (s', blend target (m_buffer s'))
      \<and> unat (m_time s') = spec_time (unat (m_period s)) (unat (m_time s)) (unat ms)
      \<and> same_elsewhere s s'
      \<and> (keys (m_keys s) = [] \<longrightarrow>
           colors (m_buffer s') =
             map (\<lambda>phase. m_colors s !
                    spec_local_phase (spec_phase_after (unat (m_period s)) (unat (m_time s)) (unat ms))
                      (unat phase))
                 (m_phases s))
      \<and> (\<forall>idx<length (keys (m_keys s)).
            (\<forall>j<length (keys (m_keys s)). idx < j \<longrightarrow>
               key_slot (m_buffer s) (keys (m_keys s) ! j) \<noteq> key_slot (m_buffer s) (keys (m_keys s) ! idx))
            \<longrightarrow> colors (m_buffer s') ! key_slot (m_buffer s) (keys (m_keys s) ! idx) =
                  m_colors s !
                    spec_local_phase (spec_phase_after (unat (m_period s)) (unat (m_time s)) (unat ms))
                      (unat (m_phases s ! idx)))"
proof -
  let ?time = "advance_time ms (m_period s) (m_time s)"
  let ?t = "global_phase ?time (m_period s)"
  let ?g = "spec_phase_after (unat (m_period s)) (unat (m_time s)) (unat ms)"
  let ?s' = "s\<lparr>m_time := ?time, m_buffer := (m_buffer s)\<lparr>colors := frame s ?t\<rparr>\<rparr>"
  have r: "render_buffer ms s = Inr ?s'"
    using assms(1-3) by (rule render_buffer_ok)
  have time: "unat ?time = spec_time (unat (m_period s)) (unat (m_time s)) (unat ms)"
    using assms(3,4) by (simp add: advance_time_unat spec_time_def)
  have t: "unat ?t = ?g"
    using assms(5) by (simp add: global_phase_unat time [symmetric] spec_phase_after_def spec_global_phase_def)
  have tl: "?t < 1024"
    using advance_time_less [OF assms(2,3)] by (rule global_phase_less)
  have ph: "\<forall>phase\<in>set (m_phases s). phase < 1024"
    using assms(1) by (simp add: tables_fit_def list_all_iff)
  have smp: "sample (m_colors s) ?t phase = m_colors s ! spec_local_phase ?g (unat phase)"
    if "phase \<in> set (m_phases s)" for phase
    using that ph by (simp add: sample_spec [OF tl] t)
  have whole: "colors (m_buffer ?s') = map (\<lambda>phase. m_colors s ! spec_local_phase ?g (unat phase)) (m_phases s)"
    if "keys (m_keys s) = []"
    using that smp by (simp add: frame_def)
  have group: "colors (m_buffer ?s') ! key_slot (m_buffer s) (keys (m_keys s) ! idx)
                 = m_colors s ! spec_local_phase ?g (unat (m_phases s ! idx))"
    if idx: "idx < length (keys (m_keys s))"
      and last: "\<forall>j<length (keys (m_keys s)). idx < j \<longrightarrow>
               key_slot (m_buffer s) (keys (m_keys s) ! j) \<noteq> key_slot (m_buffer s) (keys (m_keys s) ! idx)"
    for idx
  proof -
    from idx have ne: "keys (m_keys s) \<noteq> []" by auto
    then have l: "length (keys (m_keys s)) = length (m_phases s)"
      and ks: "\<forall>k\<in>set (keys (m_keys s)). key_slot (m_buffer s) k < length (colors (m_buffer s))"
      using assms(1) by (simp_all add: tables_fit_def list_all_iff)
    have "key_slot (m_buffer s) (keys (m_keys s) ! idx) < length (colors (m_buffer s))"
      using ks idx by simp
    with idx last have "frame s ?t ! key_slot (m_buffer s) (keys (m_keys s) ! idx)
        = sample (m_colors s) ?t (m_phases s ! idx)"
      using ne by (simp add: frame_def fold_update_last_write
          [where slot = "\<lambda>i. key_slot (m_buffer s) (keys (m_keys s) ! i)"])
    moreover have "m_phases s ! idx \<in> set (m_phases s)" using idx l by simp
    ultimately show ?thesis using smp by simp
  qed
  have "render blend ms target s = Inr (?s', blend target (m_buffer ?s'))"
    using r by (simp add: render_def)
  moreover have "unat (m_time ?s') = spec_time (unat (m_period s)) (unat (m_time s)) (unat ms)"
    using time by simp
  moreover have "same_elsewhere s ?s'" using assms(1) by (rule same_elsewhere_frame)
  ultimately show ?thesis using whole group by blast
qed

lemma tables_fit_example: "tables_fit (example_state period time)"
  by (simp add: tables_fit_def example_state_def example_table_def)

lemma example_table_nth: "i < 1024 \<Longrightarrow> example_table ! i =
    \<lparr>red = of_nat (i mod 256), green = of_nat (i div 256), blue = 0, alpha = 255\<rparr>"
  by (simp add: example_table_def)

text \<open>
  The scenario of C1: with period 1000, four deltas of 300 take the time from 0 to 300,
  600, 900 and, wrapping once, 200; the global phase is then 204.
\<close>

theorem render_samples_frame_witness:
  "tables_fit (example_state 1000 0) \<and>
   (\<exists>s'. render (\<lambda>target buffer. buffer) 300 \<lparr>colors = [], blocks = []\<rparr> (example_state 1000 0)
           = Inr (s', m_buffer s') \<and> unat (m_time s') = 300) \<and>
   (\<exists>s'. render (\<lambda>target buffer. buffer) 300 \<lparr>colors = [], blocks = []\<rparr> (example_state 1000 300)
           = Inr (s', m_buffer s') \<and> unat (m_time s') = 600) \<and>
   (\<exists>s'. render (\<lambda>target buffer. buffer) 300 \<lparr>colors = [], blocks = []\<rparr> (example_state 1000 600)
           = Inr (s', m_buffer s') \<and> unat (m_time s') = 900) \<and>
   (\<exists>s'. render (\<lambda>target buffer. buffer) 300 \<lparr>colors = [], blocks = []\<rparr> (example_state 1000 900)
           = Inr (s', m_buffer s')
        \<and> unat (m_time s') = 200
        \<and> colors (m_buffer s') = [example_table ! 204, example_table ! 716])"
proof -
  have step: "\<exists>s'. render (\<lambda>target buffer. buffer) 300 \<lparr>colors = [], blocks = []\<rparr> (example_state 1000 time)
           = Inr (s', m_buffer s')
        \<and> unat (m_time s') = spec_time 1000 (unat time) 300
        \<and> colors (m_buffer s')
            = [example_table ! spec_local_phase (spec_phase_after 1000 (unat time) 300) 0,
               example_table ! spec_local_phase (spec_phase_after 1000 (unat time) 300) 512]"
    if "time < 1000" and "unat time + 300 < 2 ^ 32"
      and "1024 * spec_time 1000 (unat time) 300 < 2 ^ 32" for time
    using render_samples_frame [of "example_state 1000 time" 300 "\<lambda>target buffer. buffer"
        "\<lparr>colors = [], blocks = []\<rparr>"] tables_fit_example [of 1000 time] that
    by (auto simp: example_state_def)
  have "\<exists>s'. render (\<lambda>target buffer. buffer) 300 \<lparr>colors = [], blocks = []\<rparr> (example_state 1000 0)
           = Inr (s', m_buffer s') \<and> unat (m_time s') = 300"
    using step [of 0] by (auto simp: spec_time_def)
  moreover have "\<exists>s'. render (\<lambda>target buffer. buffer) 300 \<lparr>colors = [], blocks = []\<rparr> (example_state 1000 300)
           = Inr (s', m_buffer s') \<and> unat (m_time s') = 600"
    using step [of 300] by (auto simp: spec_time_def)
  moreover have "\<exists>s'. render (\<lambda>target buffer. buffer) 300 \<lparr>colors = [], blocks = []\<rparr> (example_state 1000 600)
           = Inr (s', m_buffer s') \<and> unat (m_time s') = 900"
    using step [of 600] by (auto simp: spec_time_def)
  moreover have "\<exists>s'. render (\<lambda>target buffer. buffer) 300 \<lparr>colors = [], blocks = []\<rparr> (example_state 1000 900)
           = Inr (s', m_buffer s')
        \<and> unat (m_time s') = 200
        \<and> colors (m_buffer s') = [example_table ! 204, example_table ! 716]"
    using step [of 900]
    by (auto simp: spec_time_def spec_phase_after_def spec_global_phase_def spec_local_phase_def)
  ultimately show ?thesis using tables_fit_example [of 1000 0] by blast
qed

text \<open>
  C10 on the same call.
\<close>

theorem render_color_access_in_bounds_witness:
  "list_all (\<lambda>phase. phase < 1024) (m_phases (example_state 1000 900)) \<and>
   length (m_colors (example_state 1000 900)) = unat accuracy \<and>
   global_phase (advance_time 300 1000 900) 1000 < 1024 \<and>
   render_buffer 300 (example_state 1000 900) \<noteq> Inl ColorTableOutOfBounds"
  using render_color_access_in_bounds [of "example_state 1000 900" 300]
  by (simp add: example_state_def example_table_def global_phase_def advance_time_def accuracy_def)

text \<open>
  Claim C1 as it is stated fails for a long period: with a period of \<open>2 ^ 23\<close> and a
  time of \<open>2 ^ 22\<close> the product \<open>N * time\<close> is \<open>2 ^ 32\<close>, which is 0 in 32 bits. The
  code samples at global phase 0 where the claim has 512.
\<close>

theorem render_overflow_counterexample:
  "render_buffer 4194304 (example_state 8388608 0)
     = Inr ((example_state 8388608 4194304)
              \<lparr>m_buffer := \<lparr>colors = [example_table ! 0, example_table ! 512], blocks = [0]\<rparr>\<rparr>)
   \<and> spec_local_phase (spec_phase_after 8388608 0 4194304) 0 = 512
   \<and> example_table ! 0 \<noteq> example_table ! 512"
proof -
  have "render_buffer 4194304 (example_state 8388608 0)
     = Inr ((example_state 8388608 0)\<lparr>m_time := advance_time 4194304 8388608 0,
              m_buffer := (m_buffer (example_state 8388608 0))\<lparr>colors :=
                frame (example_state 8388608 0) (global_phase (advance_time 4194304 8388608 0) 8388608)\<rparr>\<rparr>)"
    using render_buffer_ok [of "example_state 8388608 0" 4194304] tables_fit_example [of 8388608 0]
    by (simp add: example_state_def)
  moreover have "advance_time 4194304 8388608 0 = 4194304"
    by (simp add: advance_time_def)
  moreover have "global_phase 4194304 8388608 = 0"
    by (simp add: global_phase_def accuracy_def)
  moreover have "sample example_table 0 0 = example_table ! 0"
    by (simp add: sample_def local_phase_def)
  moreover have "sample example_table 0 512 = example_table ! 512"
    by (simp add: sample_def local_phase_def accuracy_def word_sless_alt)
  ultimately have "render_buffer 4194304 (example_state 8388608 0)
     = Inr ((example_state 8388608 4194304)
              \<lparr>m_buffer := \<lparr>colors = [example_table ! 0, example_table ! 512], blocks = [0]\<rparr>\<rparr>)"
    by (simp add: example_state_def frame_def)
  moreover have "spec_local_phase (spec_phase_after 8388608 0 4194304) 0 = 512"
    by (simp add: spec_local_phase_def spec_phase_after_def spec_global_phase_def spec_time_def)
  moreover have "example_table ! 0 \<noteq> example_table ! 512"
    by (simp add: example_table_nth)
  ultimately show ?thesis by simp
qed

lemma same_elsewhere_refl: "same_elsewhere s s"
  by (simp add: same_elsewhere_def)

lemma key_slot_blocks: "blocks t' = blocks t \<Longrightarrow> key_slot t' k = key_slot t k"
  by (simp add: key_slot_def)

lemma same_elsewhere_trans:
  assumes "same_elsewhere s s1" "same_elsewhere s1 s2"
  shows "same_elsewhere s s2"
proof -
  have b: "blocks (m_buffer s1) = blocks (m_buffer s)" and k: "m_keys s1 = m_keys s"
    using assms(1) by (simp_all add: same_elsewhere_def)
  have ks: "key_slot (m_buffer s1) = key_slot (m_buffer s)"
    using b by (auto simp: key_slot_def fun_eq_iff)
  show ?thesis
    using assms unfolding same_elsewhere_def ks k by auto
qed

lemma tables_fit_same_elsewhere:
  assumes "tables_fit s" "same_elsewhere s s1"
  shows "tables_fit s1"
proof -
  have ks: "key_slot (m_buffer s1) = key_slot (m_buffer s)"
    using assms(2) by (auto simp: same_elsewhere_def key_slot_def fun_eq_iff)
  show ?thesis
    using assms unfolding tables_fit_def same_elsewhere_def ks by auto
qed

lemma fold_update_agree:
  assumes "length b1 = length b2"
    and "\<forall>p<length b2. p \<notin> slot ` set is \<longrightarrow> b1 ! p = b2 ! p"
  shows "fold (\<lambda>i b. b[slot i := col i]) is b1 = fold (\<lambda>i b. b[slot i := col i]) is b2"
proof (rule nth_equalityI)
  show "length (fold (\<lambda>i b. b[slot i := col i]) is b1) = length (fold (\<lambda>i b. b[slot i := col i]) is b2)"
    using assms(1) by simp
next
  fix p assume "p < length (fold (\<lambda>i b. b[slot i := col i]) is b1)"
  then have p: "p < length b1" "p < length b2" using assms(1) by simp_all
  show "fold (\<lambda>i b. b[slot i := col i]) is b1 ! p = fold (\<lambda>i b. b[slot i := col i]) is b2 ! p"
  proof (cases "find (\<lambda>i. slot i = p) (rev is)")
    case None
    then have "p \<notin> slot ` set is" by (auto simp: find_None_iff)
    with assms(2) p have "b1 ! p = b2 ! p" by simp
    with None p show ?thesis by (simp add: fold_update_nth)
  next
    case (Some i)
    with p show ?thesis by (simp add: fold_update_nth)
  qed
qed

lemma frame_same_elsewhere:
  assumes "same_elsewhere s s1"
  shows "frame s1 t = frame s t"
proof (cases "keys (m_keys s) = []")
  case True
  with assms show ?thesis by (simp add: frame_def same_elsewhere_def)
next
  case False
  let ?ks = "keys (m_keys s)"
  let ?slot = "\<lambda>i. key_slot (m_buffer s) (?ks ! i)"
  have ks: "key_slot (m_buffer s1) = key_slot (m_buffer s)"
    using assms by (auto simp: same_elsewhere_def key_slot_def fun_eq_iff)
  have eq: "m_keys s1 = m_keys s" "m_phases s1 = m_phases s" "m_colors s1 = m_colors s"
    and len: "length (colors (m_buffer s1)) = length (colors (m_buffer s))"
    using assms by (simp_all add: same_elsewhere_def)
  have "\<forall>p<length (colors (m_buffer s)). p \<notin> ?slot ` set [0..<length ?ks]
          \<longrightarrow> colors (m_buffer s1) ! p = colors (m_buffer s) ! p"
  proof (intro allI impI)
    fix p assume p: "p < length (colors (m_buffer s))" and n: "p \<notin> ?slot ` set [0..<length ?ks]"
    have "p \<notin> key_slot (m_buffer s) ` set ?ks"
    proof
      assume "p \<in> key_slot (m_buffer s) ` set ?ks"
      then obtain k where "k \<in> set ?ks" "p = key_slot (m_buffer s) k" by auto
      then obtain i where "i < length ?ks" "p = ?slot i" by (auto simp: in_set_conv_nth)
      with n show False by auto
    qed
    with assms False p show "colors (m_buffer s1) ! p = colors (m_buffer s) ! p"
      by (simp add: same_elsewhere_def)
  qed
  with len have "fold (\<lambda>i b. b[?slot i := sample (m_colors s) t (m_phases s ! i)])
                   [0..<length ?ks] (colors (m_buffer s1))
      = fold (\<lambda>i b. b[?slot i := sample (m_colors s) t (m_phases s ! i)])
                   [0..<length ?ks] (colors (m_buffer s))"
    by (rule fold_update_agree)
  with False show ?thesis by (simp add: frame_def eq ks)
qed

lemma renders_append:
  "renders (ds @ [d]) s = (case renders ds s of Inl e \<Rightarrow> Inl e | Inr s' \<Rightarrow> render_buffer d s')"
  by (induction ds arbitrary: s) (auto split: sum.splits)

lemma spec_time_mod:
  assumes "time < period" "delta \<le> period"
  shows "spec_time period time delta = (time + delta) mod period"
proof (cases "period \<le> time + delta")
  case True
  then have "(time + delta) mod period = (time + delta - period) mod period"
    by (simp add: le_mod_geq)
  also have "\<dots> = time + delta - period" using assms by simp
  finally show ?thesis using True by (simp add: spec_time_def)
next
  case False
  then show ?thesis by (simp add: spec_time_def)
qed

lemma renders_time:
  assumes "tables_fit s" "m_time s < m_period s" "\<forall>d\<in>set ds. d \<le> ucast (m_period s)"
    and "unat (m_period s) \<le> 2 ^ 31"
  shows "\<exists>s'. renders ds s = Inr s' \<and> same_elsewhere s s' \<and> m_time s' < m_period s
           \<and> unat (m_time s') = (unat (m_time s) + sum_list (map unat ds)) mod unat (m_period s)"
  using assms
proof (induction ds arbitrary: s)
  case Nil
  then show ?case by (simp add: same_elsewhere_refl word_less_nat_alt)
next
  case (Cons d ds)
  let ?time = "advance_time d (m_period s) (m_time s)"
  let ?s1 = "s\<lparr>m_time := ?time, m_buffer := (m_buffer s)\<lparr>colors := frame s (global_phase ?time (m_period s))\<rparr>\<rparr>"
  have d: "d \<le> ucast (m_period s)" using Cons.prems(3) by simp
  have r: "render_buffer d s = Inr ?s1"
    using Cons.prems(1,2) d by (rule render_buffer_ok)
  have se: "same_elsewhere s ?s1" using Cons.prems(1) by (rule same_elsewhere_frame)
  have fit: "tables_fit ?s1" using Cons.prems(1) se by (rule tables_fit_same_elsewhere)
  have tl: "?time < m_period s" using Cons.prems(2) d by (rule advance_time_less)
  have bt: "unat (m_time s) < unat (m_period s)"
    using Cons.prems(2) by (simp add: word_less_nat_alt)
  have bd: "unat d \<le> unat (m_period s)"
    using d by (simp add: word_le_nat_alt unat_ucast_32_64)
  have "unat (m_time s) + unat d < 2 ^ 32" using bt bd Cons.prems(4) by simp
  then have "unat ?time = spec_time (unat (m_period s)) (unat (m_time s)) (unat d)"
    using d by (simp add: advance_time_unat spec_time_def)
  then have ut: "unat ?time = (unat (m_time s) + unat d) mod unat (m_period s)"
    using bt bd by (simp add: spec_time_mod)
  have "\<exists>s'. renders ds ?s1 = Inr s' \<and> same_elsewhere ?s1 s' \<and> m_time s' < m_period ?s1
           \<and> unat (m_time s') = (unat (m_time ?s1) + sum_list (map unat ds)) mod unat (m_period ?s1)"
    using fit tl Cons.prems(3,4) by (intro Cons.IH) simp_all
  then obtain s' where s': "renders ds ?s1 = Inr s'" "same_elsewhere ?s1 s'" "m_time s' < m_period s"
      "unat (m_time s') = (unat ?time + sum_list (map unat ds)) mod unat (m_period s)"
    by auto
  have "unat (m_time s') = (unat (m_time s) + sum_list (map unat (d # ds))) mod unat (m_period s)"
    using s'(4) ut by (simp add: mod_add_left_eq add.assoc)
  moreover have "same_elsewhere s s'" using se s'(2) by (rule same_elsewhere_trans)
  moreover have "renders (d # ds) s = Inr s'" using r s'(1) by simp
  ultimately show ?case using s'(3) by blast
qed

lemma advance_time_zero:
  assumes "time < period"
  shows "advance_time 0 period time = time"
proof -
  have "(0 :: 64 word) \<le> ucast period" by simp
  moreover have "unat time + unat (0 :: 64 word) < 2 ^ 32"
    using unsigned_less [of time, where 'a = nat] by simp
  ultimately have "unat (advance_time 0 period time)
      = (if unat period \<le> unat time + unat (0 :: 64 word) then unat time + unat (0 :: 64 word) - unat period
            else unat time + unat (0 :: 64 word))"
    by (rule advance_time_unat)
  then have "unat (advance_time 0 period time) = unat time"
    using assms by (simp add: word_less_nat_alt)
  then show ?thesis by (simp only: word_unat_eq_iff)
qed

text \<open>
  Claim C7, amended. For a plugin whose tables fit its elements, with its time below
  the period and a period of at most \<open>2 ^ 31\<close>: after calls of \<open>render\<close> whose deltas are
  each at most the period and add up to the period, the time is what it was before, and
  the plugin is in the very state that a call with delta 0 gives from the start: its
  buffer holds the frame of that time again.
\<close>

theorem render_one_period:
  assumes "tables_fit s" and "m_time s < m_period s"
    and "\<forall>d\<in>set ds. d \<le> ucast (m_period s)"
    and "sum_list (map unat ds) = unat (m_period s)"
    and "unat (m_period s) \<le> 2 ^ 31"
  shows "\<exists>s'. renders ds s = Inr s' \<and> m_time s' = m_time s \<and> render_buffer 0 s = Inr s'"
proof -
  have bt: "unat (m_time s) < unat (m_period s)"
    using assms(2) by (simp add: word_less_nat_alt)
  then have "ds \<noteq> []" using assms(4) by auto
  then obtain ds0 d where ds: "ds = ds0 @ [d]" by (metis rev_exhaust)
  obtain s' where s': "renders ds s = Inr s'"
      "unat (m_time s') = (unat (m_time s) + sum_list (map unat ds)) mod unat (m_period s)"
    using renders_time [OF assms(1,2,3,5)] by blast
  have "unat (m_time s') = unat (m_time s)"
    using s'(2) bt by (simp add: assms(4))
  then have time: "m_time s' = m_time s" by (simp only: word_unat_eq_iff)
  have "\<forall>d\<in>set ds0. d \<le> ucast (m_period s)" using assms(3) ds by simp
  from renders_time [OF assms(1,2) this assms(5)]
  obtain s1 where s1: "renders ds0 s = Inr s1" "same_elsewhere s s1" "m_time s1 < m_period s"
    by blast
  have eq: "m_keys s1 = m_keys s" "m_phases s1 = m_phases s" "m_colors s1 = m_colors s"
      "m_period s1 = m_period s" "m_length s1 = m_length s" "m_direction s1 = m_direction s"
      "blocks (m_buffer s1) = blocks (m_buffer s)"
    using s1(2) by (simp_all add: same_elsewhere_def)
  have fit1: "tables_fit s1" using assms(1) s1(2) by (rule tables_fit_same_elsewhere)
  have d: "d \<le> ucast (m_period s1)" using assms(3) ds eq by simp
  let ?time = "advance_time d (m_period s1) (m_time s1)"
  have r1: "render_buffer d s1
      = Inr (s1\<lparr>m_time := ?time, m_buffer := (m_buffer s1)\<lparr>colors := frame s1 (global_phase ?time (m_period s1))\<rparr>\<rparr>)"
    using fit1 _ d by (rule render_buffer_ok) (simp add: s1(3) eq)
  have "renders ds s = render_buffer d s1" using s1(1) by (simp add: ds renders_append)
  with s'(1) r1 have s'_eq: "s' = s1\<lparr>m_time := ?time, m_buffer := (m_buffer s1)\<lparr>colors := frame s1 (global_phase ?time (m_period s1))\<rparr>\<rparr>"
    by simp
  then have "m_time s' = ?time" by simp
  with time have t: "?time = m_time s" by simp
  have r0: "render_buffer 0 s
      = Inr (s\<lparr>m_time := m_time s, m_buffer := (m_buffer s)\<lparr>colors := frame s (global_phase (m_time s) (m_period s))\<rparr>\<rparr>)"
    using render_buffer_ok [OF assms(1,2), of 0] assms(2) by (simp add: advance_time_zero)
  have "s' = s\<lparr>m_time := m_time s, m_buffer := (m_buffer s)\<lparr>colors := frame s (global_phase (m_time s) (m_period s))\<rparr>\<rparr>"
    unfolding s'_eq t
    by (rule WavePlugin.equality)
       (simp_all add: eq frame_same_elsewhere [OF s1(2)] RenderTarget.equality)
  with r0 s'(1) time show ?thesis by simp
qed

text \<open>
  C7 with period 1000, time 900 and the deltas 300, 300 and 400.
\<close>

theorem render_one_period_witness:
  "tables_fit (example_state 1000 900) \<and>
   sum_list (map unat [300, 300, 400 :: 64 word]) = unat (m_period (example_state 1000 900)) \<and>
   (\<exists>s'. renders [300, 300, 400] (example_state 1000 900) = Inr s' \<and> m_time s' = 900
         \<and> render_buffer 0 (example_state 1000 900) = Inr s')"
  using render_one_period [of "example_state 1000 900" "[300, 300, 400]"]
    tables_fit_example [of 1000 900]
  by (simp add: example_state_def)

text \<open>
  Claim C7 as it is stated fails for a period above \<open>2 ^ 31\<close>: with a period of
  3000000000 and a time of 2000000000, a delta of one period brings the sum to
  5000000000, which is stored as 705032704 in 32 bits; that is below the period, so
  nothing is subtracted and the time is not the one before.
\<close>

theorem render_one_period_counterexample:
  "m_time (example_state 3000000000 2000000000) < m_period (example_state 3000000000 2000000000)
   \<and> unat (3000000000 :: 64 word) = unat (m_period (example_state 3000000000 2000000000))
   \<and> map_sum id m_time (renders [3000000000] (example_state 3000000000 2000000000))
       = Inr 705032704"
proof -
  have "render_buffer 3000000000 (example_state 3000000000 2000000000)
     = Inr ((example_state 3000000000 2000000000)\<lparr>m_time := advance_time 3000000000 3000000000 2000000000,
              m_buffer := (m_buffer (example_state 3000000000 2000000000))\<lparr>colors :=
                frame (example_state 3000000000 2000000000)
                  (global_phase (advance_time 3000000000 3000000000 2000000000) 3000000000)\<rparr>\<rparr>)"
    using render_buffer_ok [of "example_state 3000000000 2000000000" 3000000000]
      tables_fit_example [of 3000000000 2000000000]
    by (simp add: example_state_def)
  moreover have "advance_time 3000000000 3000000000 2000000000 = 705032704"
    by (simp add: advance_time_def)
  ultimately show ?thesis by (simp add: example_state_def)
qed

section \<open>The phase table\<close>









lemma key_phase_total:
  assumes "x1 b \<noteq> x0 b"
  shows "\<exists>val. key_phase freqX freqY b pos = Inr val"
  using assms by (simp add: key_phase_def Let_def)

lemma block_phases_result:
  assumes "block_phases db freqX freqY bidx codes ks acc = Inr acc'"
  shows "acc' = (fst acc @ map (\<lambda>kidx. entry_phase db freqX freqY (bidx, kidx)) ks,
                 snd acc @ block_warnings db bidx codes ks)"
  using assms
proof (induction ks arbitrary: acc)
  case Nil
  then show ?case by (simp add: block_warnings_def)
next
  case (Cons kidx rest)
  show ?case
  proof (cases "keyDB_find db (bidx, kidx)")
    case None
    with Cons.prems have "block_phases db freqX freqY bidx codes rest
        (fst acc @ [0], snd acc @ [(bidx, kidx, codes ! kidx)]) = Inr acc'"
      by simp
    then have "acc' = (fst (fst acc @ [0], snd acc @ [(bidx, kidx, codes ! kidx)])
                         @ map (\<lambda>kidx. entry_phase db freqX freqY (bidx, kidx)) rest,
                       snd (fst acc @ [0], snd acc @ [(bidx, kidx, codes ! kidx)])
                         @ block_warnings db bidx codes rest)"
      by (rule Cons.IH)
    with None show ?thesis by (simp add: entry_phase_def block_warnings_def)
  next
    case (Some key)
    with Cons.prems obtain val where v: "key_phase freqX freqY (bounds db) (position key) = Inr val"
      and r: "block_phases db freqX freqY bidx codes rest (fst acc @ [val], snd acc) = Inr acc'"
      by (auto split: sum.splits)
    from r have "acc' = (fst (fst acc @ [val], snd acc)
                           @ map (\<lambda>kidx. entry_phase db freqX freqY (bidx, kidx)) rest,
                         snd (fst acc @ [val], snd acc) @ block_warnings db bidx codes rest)"
      by (rule Cons.IH)
    with Some v show ?thesis by (simp add: entry_phase_def block_warnings_def)
  qed
qed

lemma block_phases_total:
  assumes "x1 (bounds db) \<noteq> x0 (bounds db)"
  shows "\<exists>acc'. block_phases db freqX freqY bidx codes ks acc = Inr acc'"
proof (induction ks arbitrary: acc)
  case Nil
  show ?case by simp
next
  case (Cons kidx rest)
  show ?case
  proof (cases "keyDB_find db (bidx, kidx)")
    case None
    with Cons.IH show ?thesis by simp
  next
    case (Some key)
    from key_phase_total [OF assms] obtain val
      where "key_phase freqX freqY (bounds db) (position key) = Inr val" by blast
    with Some Cons.IH show ?thesis by simp
  qed
qed

lemma filler_fits:
  assumes "target_fits dev target" "bidx < length dev"
  shows "filler target (length dev) bidx (length (dev ! bidx))
           = Inr (block_end target (length dev) bidx - (blocks target ! bidx + length (dev ! bidx)))"
proof -
  have l: "length (blocks target) = length dev" using assms(1) by (simp add: target_fits_def)
  have "blocks target ! bidx + length (dev ! bidx) \<le> block_end target (length dev) bidx"
    using assms by (simp add: target_fits_def list_all_iff)
  then show ?thesis
    using assms(2) l by (auto simp: filler_def block_end_def Let_def)
qed

lemma all_phases_result:
  assumes "all_phases manager target freqX freqY bs acc = Inr acc'"
    and "target_fits (device_blocks manager) target"
    and "\<forall>bidx\<in>set bs. bidx < length (device_blocks manager)"
  shows "acc' = (fst acc @ concat (map (block_segment manager target freqX freqY) bs),
                 snd acc @ concat (map (\<lambda>bidx. block_warnings (keyDB manager) bidx
                      (device_blocks manager ! bidx) [0..<length (device_blocks manager ! bidx)]) bs))"
  using assms(1,3)
proof (induction bs arbitrary: acc)
  case Nil
  then show ?case by simp
next
  case (Cons bidx rest)
  let ?codes = "device_blocks manager ! bidx"
  let ?n = "block_end target (length (device_blocks manager)) bidx - (blocks target ! bidx + length ?codes)"
  have f: "filler target (length (device_blocks manager)) bidx (length ?codes) = Inr ?n"
    using assms(2) Cons.prems(2) by (intro filler_fits) simp_all
  from Cons.prems(1) f obtain acc1 where
    b: "block_phases (keyDB manager) freqX freqY bidx ?codes [0..<length ?codes] acc = Inr acc1"
    and r: "all_phases manager target freqX freqY rest (fst acc1 @ replicate ?n 0, snd acc1) = Inr acc'"
    by (auto simp: Let_def split: sum.splits)
  have a1: "acc1 = (fst acc @ map (\<lambda>kidx. entry_phase (keyDB manager) freqX freqY (bidx, kidx)) [0..<length ?codes],
                    snd acc @ block_warnings (keyDB manager) bidx ?codes [0..<length ?codes])"
    using b by (rule block_phases_result)
  have "acc' = (fst (fst acc1 @ replicate ?n 0, snd acc1)
                  @ concat (map (block_segment manager target freqX freqY) rest),
                snd (fst acc1 @ replicate ?n 0, snd acc1)
                  @ concat (map (\<lambda>bidx. block_warnings (keyDB manager) bidx
                      (device_blocks manager ! bidx) [0..<length (device_blocks manager ! bidx)]) rest))"
    using r Cons.prems(2) by (intro Cons.IH) simp_all
  then show ?case by (simp add: a1 block_segment_def [of manager target freqX freqY bidx])
qed

lemma all_phases_total:
  assumes "x1 (bounds (keyDB manager)) \<noteq> x0 (bounds (keyDB manager))"
    and "target_fits (device_blocks manager) target"
    and "\<forall>bidx\<in>set bs. bidx < length (device_blocks manager)"
  shows "\<exists>acc'. all_phases manager target freqX freqY bs acc = Inr acc'"
  using assms(3)
proof (induction bs arbitrary: acc)
  case Nil
  show ?case by simp
next
  case (Cons bidx rest)
  let ?codes = "device_blocks manager ! bidx"
  let ?n = "block_end target (length (device_blocks manager)) bidx - (blocks target ! bidx + length ?codes)"
  have f: "filler target (length (device_blocks manager)) bidx (length ?codes) = Inr ?n"
    using assms(2) Cons.prems by (intro filler_fits) simp_all
  obtain acc1 where
    b: "block_phases (keyDB manager) freqX freqY bidx ?codes [0..<length ?codes] acc = Inr acc1"
    using block_phases_total [OF assms(1)] by blast
  have "\<exists>acc'. all_phases manager target freqX freqY rest (fst acc1 @ replicate ?n 0, snd acc1) = Inr acc'"
    using Cons.prems by (intro Cons.IH) simp
  with f b show ?case by (simp add: Let_def)
qed

lemma length_block_segment:
  assumes "target_fits (device_blocks manager) target" "bidx < length (device_blocks manager)"
  shows "length (block_segment manager target freqX freqY bidx)
           = block_end target (length (device_blocks manager)) bidx - blocks target ! bidx"
proof -
  have "blocks target ! bidx + length (device_blocks manager ! bidx)
          \<le> block_end target (length (device_blocks manager)) bidx"
    using assms by (simp add: target_fits_def list_all_iff)
  then show ?thesis by (simp add: block_segment_def)
qed

lemma length_segments:
  assumes "target_fits (device_blocks manager) target" "m < length (device_blocks manager)"
  shows "length (concat (map (block_segment manager target freqX freqY) [0..<m]))
           = blocks target ! m"
  using assms(2)
proof (induction m)
  case 0
  then show ?case using assms(1) by (auto simp: target_fits_def)
next
  case (Suc m)
  then have m: "m < length (device_blocks manager)" by simp
  then have "length (concat (map (block_segment manager target freqX freqY) [0..<m])) = blocks target ! m"
    by (rule Suc.IH)
  moreover have "length (block_segment manager target freqX freqY m)
      = blocks target ! Suc m - blocks target ! m"
    using length_block_segment [OF assms(1) m] Suc.prems by (simp add: block_end_def)
  moreover have "blocks target ! m \<le> blocks target ! Suc m"
  proof -
    have "blocks target ! m + length (device_blocks manager ! m)
          \<le> block_end target (length (device_blocks manager)) m"
      using assms(1) m by (simp add: target_fits_def list_all_iff)
    then show ?thesis using Suc.prems by (simp add: block_end_def)
  qed
  ultimately show ?case by simp
qed

lemma length_all_segments:
  assumes "target_fits (device_blocks manager) target"
  shows "length (concat (map (block_segment manager target freqX freqY)
            [0..<length (device_blocks manager)])) = length (colors target)"
proof (cases "length (device_blocks manager)")
  case 0
  with assms show ?thesis by (simp add: target_fits_def)
next
  case (Suc m)
  then have m: "m < length (device_blocks manager)" by simp
  have "length (concat (map (block_segment manager target freqX freqY) [0..<m])) = blocks target ! m"
    using assms m by (rule length_segments)
  moreover have "length (block_segment manager target freqX freqY m)
      = length (colors target) - blocks target ! m"
    using length_block_segment [OF assms m] Suc by (simp add: block_end_def)
  moreover have "blocks target ! m \<le> length (colors target)"
  proof -
    have "blocks target ! m + length (device_blocks manager ! m)
          \<le> block_end target (length (device_blocks manager)) m"
      using assms m by (simp add: target_fits_def list_all_iff)
    then show ?thesis using Suc by (simp add: block_end_def)
  qed
  ultimately show ?thesis by (simp add: Suc)
qed

lemma segments_nth:
  assumes "target_fits (device_blocks manager) target" "bidx < length (device_blocks manager)"
    and "i < length (block_segment manager target freqX freqY bidx)"
  shows "concat (map (block_segment manager target freqX freqY) [0..<length (device_blocks manager)])
           ! (blocks target ! bidx + i) = block_segment manager target freqX freqY bidx ! i"
proof -
  let ?seg = "block_segment manager target freqX freqY"
  have "[0..<bidx + (length (device_blocks manager) - bidx)]
      = [0..<bidx] @ [bidx..<bidx + (length (device_blocks manager) - bidx)]"
    by (rule upt_add_eq_append) simp
  moreover have "bidx + (length (device_blocks manager) - bidx) = length (device_blocks manager)"
    using assms(2) by simp
  ultimately have "[0..<length (device_blocks manager)]
      = [0..<bidx] @ [bidx..<length (device_blocks manager)]"
    by simp
  also have "[bidx..<length (device_blocks manager)] = bidx # [Suc bidx..<length (device_blocks manager)]"
    using assms(2) by (rule upt_conv_Cons)
  finally have "[0..<length (device_blocks manager)]
      = [0..<bidx] @ bidx # [Suc bidx..<length (device_blocks manager)]" .
  then have "concat (map ?seg [0..<length (device_blocks manager)])
      = concat (map ?seg [0..<bidx]) @ ?seg bidx @ concat (map ?seg [Suc bidx..<length (device_blocks manager)])"
    by simp
  moreover have "length (concat (map ?seg [0..<bidx])) = blocks target ! bidx"
    using assms(1,2) by (rule length_segments)
  ultimately show ?thesis using assms(3) by (simp add: nth_append)
qed

lemma example_key_phase:
  "key_phase 0 1024 \<lparr>x0 = 0, y0 = 0, x1 = 400, y1 = 100\<rparr> \<lparr>x0 = 190, y0 = 40, x1 = 210, y1 = 60\<rparr> = Inr 896"
  by (simp add: key_phase_def midpoint_def normalize_x_def normalize_y_def phase_value_def
        sdiv32_def smod32_def accuracy_def signed_divide_int_def signed_modulo_int_def word_sless_alt)

lemma example_key_phase_origin:
  "key_phase freqX freqY b \<lparr>x0 = 0, y0 = 0, x1 = 0, y1 = 0\<rparr> = Inr 0"
  by (simp add: key_phase_def midpoint_def)


text \<open>
  Claim C8. In whole-buffer mode, for a render target laid out for the device,
  \<open>computePhases\<close> completes whenever the bounds have a width, and when it completes the
  phase table is as long as the buffer and aligned with it: the entry at the slot of key
  \<open>kidx\<close> of block \<open>bidx\<close> is the phase of that key, which is 0, with a warning logged,
  for a key that the database does not know, and the entries of the slots between the
  last key of a block and the start of the next block (or the end of the buffer) are 0.
\<close>

theorem computePhases_whole_buffer:
  assumes "keys (m_keys s) = []" and "target_fits (device_blocks manager) (m_buffer s)"
  shows "(x1 (bounds (keyDB manager)) \<noteq> x0 (bounds (keyDB manager)) \<longrightarrow>
           (\<exists>s' warnings. computePhases frequencies manager s = Inr (s', warnings)))
       \<and> (\<forall>s' warnings. computePhases frequencies manager s = Inr (s', warnings) \<longrightarrow>
            m_buffer s' = m_buffer s
          \<and> length (m_phases s') = length (colors (m_buffer s'))
          \<and> (\<forall>bidx<length (device_blocks manager).
                (\<forall>kidx<length (device_blocks manager ! bidx).
                    m_phases s' ! (blocks (m_buffer s) ! bidx + kidx)
                      = entry_phase (keyDB manager) (fst (frequencies (m_length s) (m_direction s)))
                          (snd (frequencies (m_length s) (m_direction s))) (bidx, kidx)
                  \<and> (keyDB_find (keyDB manager) (bidx, kidx) = None \<longrightarrow>
                        m_phases s' ! (blocks (m_buffer s) ! bidx + kidx) = 0
                      \<and> (bidx, kidx, device_blocks manager ! bidx ! kidx) \<in> set warnings))
              \<and> (\<forall>p. blocks (m_buffer s) ! bidx + length (device_blocks manager ! bidx) \<le> p
                      \<and> p < block_end (m_buffer s) (length (device_blocks manager)) bidx
                      \<longrightarrow> m_phases s' ! p = 0)))"
proof (intro conjI impI allI)
  let ?fx = "fst (frequencies (m_length s) (m_direction s))"
  let ?fy = "snd (frequencies (m_length s) (m_direction s))"
  let ?n = "length (device_blocks manager)"
  let ?seg = "block_segment manager (m_buffer s) ?fx ?fy"
  have range: "\<forall>bidx\<in>set [0..<?n]. bidx < ?n" by simp
  {
    assume "x1 (bounds (keyDB manager)) \<noteq> x0 (bounds (keyDB manager))"
    from all_phases_total [OF this assms(2) range]
    obtain acc where "all_phases manager (m_buffer s) ?fx ?fy [0..<?n] ([], []) = Inr acc"
      by blast
    then show "\<exists>s' warnings. computePhases frequencies manager s = Inr (s', warnings)"
      using assms(1) by (simp add: computePhases_def Let_def)
  }
  fix s' warnings
  assume r: "computePhases frequencies manager s = Inr (s', warnings)"
  then obtain acc where a: "all_phases manager (m_buffer s) ?fx ?fy [0..<?n] ([], []) = Inr acc"
    and s': "s' = s\<lparr>m_phases := fst acc\<rparr>" and w: "warnings = snd acc"
    using assms(1) by (auto simp: computePhases_def Let_def split: sum.splits)
  have acc: "acc = (concat (map ?seg [0..<?n]),
                    concat (map (\<lambda>bidx. block_warnings (keyDB manager) bidx
                      (device_blocks manager ! bidx) [0..<length (device_blocks manager ! bidx)]) [0..<?n]))"
    using all_phases_result [OF a assms(2) range] by simp
  have ph: "m_phases s' = concat (map ?seg [0..<?n])" by (simp add: s' acc)
  show "m_buffer s' = m_buffer s" by (simp add: s')
  show "length (m_phases s') = length (colors (m_buffer s'))"
    using length_all_segments [OF assms(2), of ?fx ?fy] by (simp add: s' acc)
  {
    fix bidx kidx
    assume b: "bidx < ?n" and k: "kidx < length (device_blocks manager ! bidx)"
    have "kidx < length (?seg bidx)" using k by (simp add: block_segment_def)
    then have "m_phases s' ! (blocks (m_buffer s) ! bidx + kidx) = ?seg bidx ! kidx"
      unfolding ph using assms(2) b by (intro segments_nth)
    also have "\<dots> = entry_phase (keyDB manager) ?fx ?fy (bidx, kidx)"
      using k by (simp add: block_segment_def nth_append)
    finally show e: "m_phases s' ! (blocks (m_buffer s) ! bidx + kidx)
        = entry_phase (keyDB manager) ?fx ?fy (bidx, kidx)" .
    {
      assume none: "keyDB_find (keyDB manager) (bidx, kidx) = None"
      then show "m_phases s' ! (blocks (m_buffer s) ! bidx + kidx) = 0"
        using e by (simp add: entry_phase_def)
      have "(bidx, kidx, device_blocks manager ! bidx ! kidx)
          \<in> set (block_warnings (keyDB manager) bidx (device_blocks manager ! bidx)
                   [0..<length (device_blocks manager ! bidx)])"
        using none k by (simp add: block_warnings_def)
      then show "(bidx, kidx, device_blocks manager ! bidx ! kidx) \<in> set warnings"
        using b by (auto simp: w acc)
    }
  }
  {
    fix bidx p
    assume b: "bidx < ?n"
      and p: "blocks (m_buffer s) ! bidx + length (device_blocks manager ! bidx) \<le> p
              \<and> p < block_end (m_buffer s) ?n bidx"
    define i where "i = p - blocks (m_buffer s) ! bidx"
    have pi: "p = blocks (m_buffer s) ! bidx + i" using p unfolding i_def by linarith
    have l: "length (?seg bidx) = block_end (m_buffer s) ?n bidx - blocks (m_buffer s) ! bidx"
      using assms(2) b by (rule length_block_segment)
    have il: "i < length (?seg bidx)" using p unfolding l i_def by linarith
    have ik: "length (device_blocks manager ! bidx) \<le> i" using p unfolding i_def by linarith
    have "m_phases s' ! p = ?seg bidx ! i"
      unfolding ph pi using assms(2) b il by (rule segments_nth)
    also have "\<dots> = 0"
      using il ik by (simp add: block_segment_def nth_append)
    finally show "m_phases s' ! p = 0" .
  }
qed

text \<open>
  C8 on the example device: eight phases for eight slots, and the unknown second key of
  the first block has phase 0 and a warning.
\<close>

theorem computePhases_whole_buffer_witness:
  "keys (m_keys (WavePlugin_init example_manager)) = []
   \<and> target_fits (device_blocks example_manager) (m_buffer (WavePlugin_init example_manager))
   \<and> (\<exists>s' warnings.
         computePhases example_frequencies example_manager (WavePlugin_init example_manager)
           = Inr (s', warnings)
       \<and> length (m_phases s') = 8 \<and> m_phases s' ! 1 = 0 \<and> (0, 1, 11) \<in> set warnings)"
proof -
  have k: "keys (m_keys (WavePlugin_init example_manager)) = []"
    by (simp add: WavePlugin_init_def)
  have f: "target_fits (device_blocks example_manager) (m_buffer (WavePlugin_init example_manager))"
    by (simp add: target_fits_def WavePlugin_init_def example_manager_def block_end_def
          numeral_eq_Suc)
  have w: "x1 (bounds (keyDB example_manager)) \<noteq> x0 (bounds (keyDB example_manager))"
    by (simp add: example_manager_def)
  have n: "keyDB_find (keyDB example_manager) (0, 1) = None"
    by (simp add: keyDB_find_def example_manager_def)
  from computePhases_whole_buffer [OF k f, of example_frequencies] w
  obtain s' warnings where r: "computePhases example_frequencies example_manager
      (WavePlugin_init example_manager) = Inr (s', warnings)"
    by blast
  with computePhases_whole_buffer [OF k f, of example_frequencies]
  have l: "length (m_phases s') = length (colors (m_buffer s'))"
    and b: "m_buffer s' = m_buffer (WavePlugin_init example_manager)"
    and q: "\<forall>bidx<length (device_blocks example_manager).
           \<forall>kidx<length (device_blocks example_manager ! bidx).
              keyDB_find (keyDB example_manager) (bidx, kidx) = None \<longrightarrow>
                m_phases s' ! (blocks (m_buffer (WavePlugin_init example_manager)) ! bidx + kidx) = 0
              \<and> (bidx, kidx, device_blocks example_manager ! bidx ! kidx) \<in> set warnings"
    by blast+
  have "length (m_phases s') = 8"
    using l b by (simp add: WavePlugin_init_def example_manager_def)
  moreover have "m_phases s' ! 1 = 0 \<and> (0, 1, 11) \<in> set warnings"
    using q [rule_format, of 0 1] n by (simp add: WavePlugin_init_def example_manager_def)
  ultimately have "length (m_phases s') = 8" "m_phases s' ! 1 = 0 \<and> (0, 1, 11) \<in> set warnings"
    by simp_all
  with r k f show ?thesis by blast
qed


text \<open>
  Claim C3 fails on the code. With the bounds \<open>(0, 0)\<close> to \<open>(400, 100)\<close>, the key in the
  middle of the board, at \<open>(200, 50)\<close>, has the normalised X 512, but its normalised Y is
  \<open>1024 - 1024 * 50 / 400 = 896\<close>: the code divides by the width of the bounds and
  subtracts their left edge where the claim has the height and the top edge, which
  give 512. The phase of the key is 896 where the claim gives 512.
\<close>

theorem normalize_y_uses_x_bounds:
  "normalize_y \<lparr>x0 = 0, y0 = 0, x1 = 400, y1 = 100\<rparr> (midpoint 40 60) = 896
   \<and> spec_normalize_y \<lparr>x0 = 0, y0 = 0, x1 = 400, y1 = 100\<rparr> (midpoint 40 60) = 512
   \<and> key_phase 0 1024 \<lparr>x0 = 0, y0 = 0, x1 = 400, y1 = 100\<rparr>
        \<lparr>x0 = 190, y0 = 40, x1 = 210, y1 = 60\<rparr> = Inr 896
   \<and> phase_value 0 1024
        (normalize_x \<lparr>x0 = 0, y0 = 0, x1 = 400, y1 = 100\<rparr> (midpoint 190 210))
        (spec_normalize_y \<lparr>x0 = 0, y0 = 0, x1 = 400, y1 = 100\<rparr> (midpoint 40 60)) = 512"
  by (simp add: example_key_phase)
     (simp add: midpoint_def normalize_x_def normalize_y_def spec_normalize_y_def phase_value_def
        sdiv32_def smod32_def accuracy_def signed_divide_int_def signed_modulo_int_def word_sless_alt)

section \<open>The colour table\<close>

text \<open>
  A number with a numerator below \<open>2 ^ 24\<close> over a power of two is a \<open>float\<close>: rounding
  leaves it as it is. The interpolation between stops that are a power of two apart stays
  within such numbers.
\<close>

lemma bit_length_le: "n < 2 ^ j \<Longrightarrow> bit_length n \<le> j"
proof (induction j arbitrary: n)
  case 0
  then show ?case by (simp add: bit_length.simps)
next
  case (Suc j)
  show ?case
  proof (cases "n = 0")
    case True
    then show ?thesis by (simp add: bit_length.simps)
  next
    case False
    from Suc.prems have "n div 2 < 2 ^ j" by simp
    then have "bit_length (n div 2) \<le> j" by (rule Suc.IH)
    with False show ?thesis by (simp add: bit_length.simps [of n])
  qed
qed

lemma float_exponent_le:
  assumes "\<bar>x\<bar> < 2 ^ j" "1 \<le> j"
  shows "float_exponent x \<le> int j - 1"
proof (cases "1 \<le> \<bar>x\<bar>")
  case True
  have "\<lfloor>\<bar>x\<bar>\<rfloor> < 2 ^ j" using assms(1) by (simp add: floor_less_iff)
  then have "nat \<lfloor>\<bar>x\<bar>\<rfloor> < 2 ^ j" by (simp add: nat_less_iff)
  then have "bit_length (nat \<lfloor>\<bar>x\<bar>\<rfloor>) \<le> j" by (rule bit_length_le)
  with True assms(2) show ?thesis by (simp add: float_exponent_def)
next
  case False
  with assms(2) show ?thesis by (simp add: float_exponent_def)
qed

lemma round_half_even_of_int: "round_half_even (of_int n) = n"
  by (simp add: round_half_even_def)

lemma float_round_exact:
  assumes "\<bar>m\<bar> < 2 ^ 24" "k \<le> 23"
  shows "float_round (of_int m / 2 ^ k) = of_int m / 2 ^ k"
proof (cases "m = 0")
  case True
  then show ?thesis by (simp add: float_round_def)
next
  case False
  define x :: rat where "x = of_int m / 2 ^ k"
  define e where "e = float_exponent x"
  have x0: "x \<noteq> 0" using False by (simp add: x_def)
  have "\<bar>x\<bar> = of_int \<bar>m\<bar> / 2 ^ k" by (simp add: x_def)
  also have "\<dots> < 2 ^ 24 / 2 ^ k"
  proof -
    have "(of_int \<bar>m\<bar> :: rat) < of_int (2 ^ 24)" using assms(1) by (simp only: of_int_less_iff)
    then show ?thesis by (simp add: divide_strict_right_mono)
  qed
  also have "\<dots> = (2 :: rat) ^ (24 - k)"
    using assms(2) by (simp add: power_diff)
  finally have "\<bar>x\<bar> < 2 ^ (24 - k)" .
  then have "e \<le> int (24 - k) - 1"
    unfolding e_def using assms(2) by (intro float_exponent_le) simp_all
  then have d: "0 \<le> 23 - e - int k" using assms(2) by simp
  define d where "d = nat (23 - e - int k)"
  have e23: "e - 23 = - int k - int d" using d by (simp add: d_def)
  have q: "(2 :: rat) powi (e - 23) = 1 / (2 ^ k * 2 ^ d)"
    unfolding e23 by (simp add: power_int_diff power_int_minus field_simps)
  define n where "n = m * 2 ^ d"
  have "x / (2 powi (e - 23)) = of_int n"
    by (simp add: q x_def n_def)
  then have "float_round x = of_int n * 2 powi (e - 23)"
    using x0 by (simp add: float_round_def e_def [symmetric] round_half_even_of_int Let_def)
  also have "\<dots> = x"
    by (simp add: q x_def n_def)
  finally show ?thesis by (simp add: x_def)
qed

lemma float_round_dyadic:
  assumes "n < 2 ^ 24" "k \<le> 23"
  shows "float_round (of_nat n / 2 ^ k) = of_nat n / 2 ^ k"
proof -
  have "\<bar>int n\<bar> < 2 ^ 24" using assms(1) by simp
  from float_round_exact [OF this assms(2)] show ?thesis by simp
qed

lemma float_of_nat_exact: "n < 2 ^ 24 \<Longrightarrow> float_of_nat n = of_nat n"
  using float_round_dyadic [of n 0] by (simp add: float_of_nat_def)

lemma ratio_exact:
  assumes "j < 2 ^ k" "k \<le> 10"
  shows "fdiv (float_of_nat j) (float_of_nat (2 ^ k)) = of_nat j / 2 ^ k"
proof -
  have "(2 :: nat) ^ k \<le> 2 ^ 10" using assms(2) by (intro power_increasing) simp_all
  then have p: "(2 :: nat) ^ k < 2 ^ 24" by simp
  then have j: "j < 2 ^ 24" using assms(1) by simp
  have "fdiv (float_of_nat j) (float_of_nat (2 ^ k)) = float_round (of_nat j / 2 ^ k)"
    by (simp add: fdiv_def float_of_nat_exact [OF j] float_of_nat_exact [OF p])
  also have "\<dots> = of_nat j / 2 ^ k"
    using j assms(2) by (intro float_round_dyadic) simp_all
  finally show ?thesis .
qed

lemma blend_channel_dyadic:
  assumes "j \<le> 2 ^ k" "k \<le> 10"
  shows "blend_channel a b (of_nat j / 2 ^ k)
           = of_nat ((unat a * (2 ^ k - j) + unat b * j) div 2 ^ k)"
proof -
  let ?A = "unat a" and ?B = "unat b"
  have p10: "(2 :: nat) ^ k \<le> 1024"
    using power_increasing [of k 10 "2 :: nat"] assms(2) by simp
  have A: "?A < 256" using unsigned_less [of a, where 'a = nat] by simp
  have B: "?B < 256" using unsigned_less [of b, where 'a = nat] by simp
  have k23: "k \<le> 23" using assms(2) by simp
  have fa: "float_of_nat ?A = of_nat ?A" using A by (intro float_of_nat_exact) simp
  have fb: "float_of_nat ?B = of_nat ?B" using B by (intro float_of_nat_exact) simp
  have "(1 :: rat) - of_nat j / 2 ^ k = of_nat (2 ^ k - j) / 2 ^ k"
    using assms(1) by (simp add: of_nat_diff field_simps)
  moreover have "float_round (of_nat (2 ^ k - j) / 2 ^ k) = of_nat (2 ^ k - j) / 2 ^ k"
    using p10 k23 by (intro float_round_dyadic) simp_all
  ultimately have s: "fsub 1 (of_nat j / 2 ^ k) = of_nat (2 ^ k - j) / 2 ^ k"
    by (simp add: fsub_def)
  have "?A * (2 ^ k - j) \<le> 255 * 1024"
    using A p10 by (intro mult_mono) simp_all
  then have ma: "?A * (2 ^ k - j) < 2 ^ 24" by simp
  have "?B * j \<le> 255 * 1024"
    using B p10 assms(1) by (intro mult_mono) simp_all
  then have mb: "?B * j < 2 ^ 24" by simp
  have m1: "fmul (of_nat ?A) (of_nat (2 ^ k - j) / 2 ^ k) = of_nat (?A * (2 ^ k - j)) / 2 ^ k"
    using float_round_dyadic [OF ma k23] by (simp add: fmul_def)
  have m2: "fmul (of_nat ?B) (of_nat j / 2 ^ k) = of_nat (?B * j) / 2 ^ k"
    using float_round_dyadic [OF mb k23] by (simp add: fmul_def)
  have "?A * (2 ^ k - j) + ?B * j \<le> 255 * (2 ^ k - j) + 255 * j"
    using A B by (intro add_mono mult_right_mono) simp_all
  also have "\<dots> = 255 * 2 ^ k" using assms(1) by (simp add: algebra_simps)
  also have "\<dots> \<le> 255 * 1024" using p10 by simp
  finally have ms: "?A * (2 ^ k - j) + ?B * j < 2 ^ 24" by simp
  have "(of_nat (?A * (2 ^ k - j)) / 2 ^ k + of_nat (?B * j) / 2 ^ k :: rat)
      = of_nat (?A * (2 ^ k - j) + ?B * j) / 2 ^ k"
    by (simp add: add_divide_distrib)
  then have sum: "fadd (of_nat (?A * (2 ^ k - j)) / 2 ^ k) (of_nat (?B * j) / 2 ^ k)
      = of_nat (?A * (2 ^ k - j) + ?B * j) / 2 ^ k"
    using float_round_dyadic [OF ms k23] by (simp add: fadd_def)
  have fl: "\<lfloor>(of_nat (?A * (2 ^ k - j) + ?B * j) / 2 ^ k :: rat)\<rfloor>
      = int ((?A * (2 ^ k - j) + ?B * j) div 2 ^ k)"
  proof -
    have "(of_nat (?A * (2 ^ k - j) + ?B * j) / 2 ^ k :: rat)
        = of_int (int (?A * (2 ^ k - j) + ?B * j)) / of_int (2 ^ k)"
      by simp
    then have "\<lfloor>(of_nat (?A * (2 ^ k - j) + ?B * j) / 2 ^ k :: rat)\<rfloor>
        = int (?A * (2 ^ k - j) + ?B * j) div 2 ^ k"
      by (simp only: floor_divide_of_int_eq)
    then show ?thesis by (simp add: zdiv_int)
  qed
  have "blend_channel a b (of_nat j / 2 ^ k)
      = channel_type (of_nat (?A * (2 ^ k - j) + ?B * j) / 2 ^ k)"
    by (simp only: blend_channel_def fa fb s m1 m2 sum)
  also have "\<dots> = word_of_int (int ((?A * (2 ^ k - j) + ?B * j) div 2 ^ k))"
  proof -
    have "(0 :: rat) \<le> of_nat (?A * (2 ^ k - j) + ?B * j) / 2 ^ k"
      by (rule divide_nonneg_nonneg [OF of_nat_0_le_iff]) simp
    then show ?thesis by (simp only: channel_type_def if_True fl)
  qed
  finally show ?thesis by simp
qed

lemma table_entry_dyadic:
  assumes "j < 2 ^ k" "k \<le> 10"
  shows "table_entry a b first (first + 2 ^ k) (first + j)
           = \<lparr>red = of_nat ((unat (red a) * (2 ^ k - j) + unat (red b) * j) div 2 ^ k),
              green = of_nat ((unat (green a) * (2 ^ k - j) + unat (green b) * j) div 2 ^ k),
              blue = of_nat ((unat (blue a) * (2 ^ k - j) + unat (blue b) * j) div 2 ^ k),
              alpha = of_nat ((unat (alpha a) * (2 ^ k - j) + unat (alpha b) * j) div 2 ^ k)\<rparr>"
proof -
  have r: "fdiv (float_of_nat (first + j - first)) (float_of_nat (first + 2 ^ k - first)) = of_nat j / 2 ^ k"
    using ratio_exact [OF assms] by simp
  have j: "j \<le> 2 ^ k" using assms(1) by simp
  show ?thesis
    unfolding table_entry_def Let_def r blend_channel_dyadic [OF j assms(2)] ..
qed

lemma length_fill_range [simp]:
  "length (fill_range a b first lst idxs table) = length table"
  by (induction idxs arbitrary: table) simp_all

lemma fill_range_nth:
  assumes "p < length table"
  shows "fill_range a b first lst idxs table ! p
           = (if p \<in> set idxs then table_entry a b first lst p else table ! p)"
  using assms
proof (induction idxs arbitrary: table)
  case Nil
  show ?case by simp
next
  case (Cons idx rest)
  have "fill_range a b first lst rest (table[idx := table_entry a b first lst idx]) ! p
      = (if p \<in> set rest then table_entry a b first lst p
         else table[idx := table_entry a b first lst idx] ! p)"
    using Cons.prems by (intro Cons.IH) simp
  with Cons.prems show ?case by (auto simp: nth_list_update)
qed

lemma same_color_entry:
  assumes "idx < 1024"
  shows "table_entry c c 0 1024 idx = c"
proof -
  have e: "(unat v * (1024 - idx) + unat v * idx) div 1024 = unat v" for v :: "8 word"
  proof -
    have "unat v * (1024 - idx) + unat v * idx = unat v * 1024"
      using assms by (simp add: distrib_left [symmetric])
    then show ?thesis by simp
  qed
  have "table_entry c c 0 1024 idx = table_entry c c 0 (0 + 2 ^ 10) (0 + idx)"
    by simp
  also have "\<dots> = c"
  proof -
    have "idx < 2 ^ 10" using assms by simp
    from table_entry_dyadic [OF this, of c c 0] show ?thesis
      using assms by (simp add: e)
  qed
  finally show ?thesis .
qed

lemma generateColorTable_single: "generateColorTable [c] = replicate 1024 c"
proof (rule nth_equalityI)
  let ?zero = "\<lparr>red = 0, green = 0, blue = 0, alpha = 0\<rparr> :: RGBAColor"
  have g: "generateColorTable [c] = fill_range c c 0 1024 [0..<1024] (replicate 1024 ?zero)"
    by (simp add: generateColorTable_def accuracy_def Let_def numeral_2_eq_2 [symmetric]
          del: fill_range.simps upt_rec_numeral)
  show "length (generateColorTable [c]) = length (replicate 1024 c)"
    by (simp add: g del: fill_range.simps upt_rec_numeral)
  fix p assume "p < length (generateColorTable [c])"
  then have p: "p < 1024" by (simp add: g del: fill_range.simps upt_rec_numeral)
  then have "generateColorTable [c] ! p = table_entry c c 0 1024 p"
    by (simp add: g fill_range_nth del: fill_range.simps upt_rec_numeral)
  with p show "generateColorTable [c] ! p = replicate 1024 c ! p"
    by (simp add: same_color_entry)
qed

text \<open>
  Claim C6. With the single stop \<open>{255, 0, 0, 255}\<close> the table has \<open>accuracy\<close> entries, all
  of them \<open>{255, 0, 0, 255}\<close>: the only range runs from 0 to 1024 and blends the stop with
  itself.
\<close>

theorem single_stop_table:
  "generateColorTable [\<lparr>red = 255, green = 0, blue = 0, alpha = 255\<rparr>]
     = replicate (unat accuracy) \<lparr>red = 255, green = 0, blue = 0, alpha = 255\<rparr>"
  by (simp add: generateColorTable_single accuracy_def)

lemma generateColorTable_two:
  "generateColorTable [a, b]
     = fill_range b a 512 1024 [512..<1024]
         (fill_range a b 0 512 [0..<512]
           (replicate 1024 \<lparr>red = 0, green = 0, blue = 0, alpha = 0\<rparr>))"
proof -
  let ?T = "replicate 1024 \<lparr>red = 0, green = 0, blue = 0, alpha = 0\<rparr> :: RGBAColor list"
  have idxs: "[0..<length [a, b]] = [0, 1]" by simp
  have l: "length [a, b] = 2" by simp
  have "generateColorTable [a, b] = fill_ranges [a, b] [0, 1] ?T"
    unfolding generateColorTable_def idxs by (simp add: accuracy_def)
  also have "\<dots> = fill_range ([a, b] ! 1) ([a, b] ! (if (1 :: nat) + 1 \<ge> 2 then 0 else 1 + 1))
                       (1 * 1024 div 2) ((1 + 1) * 1024 div 2)
                       [1 * 1024 div 2..<(1 + 1) * 1024 div 2]
                       (fill_range ([a, b] ! 0) ([a, b] ! (if (0 :: nat) + 1 \<ge> 2 then 0 else 0 + 1))
                          (0 * 1024 div 2) ((0 + 1) * 1024 div 2)
                          [0 * 1024 div 2..<(0 + 1) * 1024 div 2] ?T)"
    by (simp only: fill_ranges.simps Let_def l length_replicate length_fill_range)
  also have "\<dots> = fill_range b a 512 1024 [512..<1024] (fill_range a b 0 512 [0..<512] ?T)"
    by (simp del: fill_range.simps upt_rec_numeral)
  finally show ?thesis .
qed

lemma ramp_up_entry:
  assumes "idx < 512"
  shows "generateColorTable [grey 0, grey 255] ! idx = grey (255 * idx div 512)"
proof -
  have "generateColorTable [grey 0, grey 255] ! idx = table_entry (grey 0) (grey 255) 0 512 idx"
    using assms by (simp add: generateColorTable_two fill_range_nth del: fill_range.simps upt_rec_numeral)
  also have "\<dots> = table_entry (grey 0) (grey 255) 0 (0 + 2 ^ 9) (0 + idx)" by simp
  also have "\<dots> = grey (255 * idx div 512)"
  proof -
    have "idx < 2 ^ 9" using assms by simp
    from table_entry_dyadic [OF this, of "grey 0" "grey 255" 0] show ?thesis
      by (simp add: grey_def)
  qed
  finally show ?thesis .
qed

lemma ramp_down_entry:
  assumes "512 \<le> idx" "idx < 1024"
  shows "generateColorTable [grey 0, grey 255] ! idx = grey (255 * (1024 - idx) div 512)"
proof -
  define j where "j = idx - 512"
  have idx: "idx = 512 + j" and j: "j < 2 ^ 9" using assms by (simp_all add: j_def)
  have "generateColorTable [grey 0, grey 255] ! idx = table_entry (grey 255) (grey 0) 512 1024 idx"
    using assms by (simp add: generateColorTable_two fill_range_nth del: fill_range.simps upt_rec_numeral)
  also have "\<dots> = table_entry (grey 255) (grey 0) 512 (512 + 2 ^ 9) (512 + j)"
    by (simp add: idx)
  also have "\<dots> = grey (255 * (512 - j) div 512)"
    using table_entry_dyadic [OF j, of "grey 255" "grey 0" 512] by (simp add: grey_def)
  also have "512 - j = 1024 - idx" by (simp add: idx)
  finally show ?thesis .
qed

text \<open>
  Claim C5, amended. With the two stops \<open>{0, 0, 0, 0}\<close> and \<open>{255, 255, 255, 255}\<close> the
  table has 1024 entries; entry 0 is \<open>{0, 0, 0, 0}\<close>, entry 256 is \<open>{127, 127, 127, 127}\<close>
  and entry 512 is \<open>{255, 255, 255, 255}\<close>; the first half is the linear ramp up
  \<open>255 * idx / 512\<close>, and the second half the linear ramp back down
  \<open>255 * (1024 - idx) / 512\<close>, both rounded down.
\<close>

theorem two_stop_table:
  "length (generateColorTable [grey 0, grey 255]) = unat accuracy
   \<and> generateColorTable [grey 0, grey 255] ! 0 = grey 0
   \<and> generateColorTable [grey 0, grey 255] ! 256 = grey 127
   \<and> generateColorTable [grey 0, grey 255] ! 512 = grey 255
   \<and> (\<forall>idx<512. generateColorTable [grey 0, grey 255] ! idx = grey (255 * idx div 512))
   \<and> (\<forall>idx<1024. 512 \<le> idx \<longrightarrow>
         generateColorTable [grey 0, grey 255] ! idx = grey (255 * (1024 - idx) div 512))"
proof -
  have "length (generateColorTable [grey 0, grey 255]) = unat accuracy"
    by (simp add: generateColorTable_two accuracy_def del: fill_range.simps upt_rec_numeral)
  moreover have "generateColorTable [grey 0, grey 255] ! 0 = grey 0"
    using ramp_up_entry [of 0] by simp
  moreover have "generateColorTable [grey 0, grey 255] ! 256 = grey 127"
    using ramp_up_entry [of 256] by simp
  moreover have "generateColorTable [grey 0, grey 255] ! 512 = grey 255"
    using ramp_down_entry [of 512] by simp
  ultimately show ?thesis
    using ramp_up_entry ramp_down_entry by blast
qed

text \<open>
  C5 at the entries 100 and 900.
\<close>

theorem two_stop_table_witness:
  "(100 :: nat) < 512 \<and> generateColorTable [grey 0, grey 255] ! 100 = grey 49
   \<and> (900 :: nat) < 1024 \<and> (512 :: nat) \<le> 900
   \<and> generateColorTable [grey 0, grey 255] ! 900 = grey 61"
proof -
  from two_stop_table
  have up: "\<forall>idx<512. generateColorTable [grey 0, grey 255] ! idx = grey (255 * idx div 512)"
    and down: "\<forall>idx<1024. 512 \<le> idx \<longrightarrow>
         generateColorTable [grey 0, grey 255] ! idx = grey (255 * (1024 - idx) div 512)"
    by blast+
  from up [rule_format, of 100] down [rule_format, of 900] show ?thesis by simp
qed

text \<open>
  Claim C5 as it is stated fails at entry 512: it is the second stop itself, 255 in every
  channel, not 128. The value of the middle of the ramp, 127, is at entry 256.
\<close>

theorem two_stop_table_counterexample:
  "red (generateColorTable [grey 0, grey 255] ! 512) = 255
   \<and> generateColorTable [grey 0, grey 255] ! 512 \<noteq> grey 128
   \<and> generateColorTable [grey 0, grey 255] ! 256 = grey 127"
  using ramp_down_entry [of 512] ramp_up_entry [of 256]
  by (simp add: grey_def)

section \<open>Setup\<close>

lemma stoul_zero: "stoul ''0'' = Inr 0"
  by (simp add: stoul_def isspace_def digit_value_def)

lemma stoul_minus_five: "stoul ''-5'' = Inr (- 5)"
  by (simp add: stoul_def isspace_def digit_value_def)

lemma stoul_250: "stoul '' +250ms'' = Inr 250"
  by (simp add: stoul_def isspace_def digit_value_def)

lemma stoul_empty: "stoul [] = Inl InvalidArgument"
  by (simp add: stoul_def)

lemma ucast_minus_five: "(ucast (- 5 :: 64 word) :: 32 word) = 4294967291"
  by simp


lemma example_computePhases_whole:
  assumes "keys (m_keys s) = []" "m_buffer s = getRenderTarget example_manager"
  shows "computePhases example_frequencies example_manager s
     = Inr (s\<lparr>m_phases := [896, 0, 0, 0, 0, 0, 0, 0]\<rparr>, [(0, 1, 11)])"
  using assms
  by (simp add: computePhases_def example_manager_def example_frequencies_def
        keyDB_find_def filler_def example_key_phase example_key_phase_origin Let_def
        numeral_eq_Suc)

lemma load_parameters_result:
  assumes "load_parameters conf s = Inr s'"
  shows "\<exists>period len direction.
           stoul (conf_value conf ''period'') = Inr period
         \<and> stoul (conf_value conf ''length'') = Inr len
         \<and> stoul (conf_value conf ''direction'') = Inr direction
         \<and> s' = s\<lparr>m_period := (if period = 0 then m_period s else ucast period),
                   m_length := (if len = 0 then m_length s else ucast len),
                   m_direction := (if direction = 0 then m_direction s else ucast direction)\<rparr>"
proof -
  from assms obtain period len direction where
    p: "stoul (conf_value conf ''period'') = Inr period"
    and l: "stoul (conf_value conf ''length'') = Inr len"
    and d: "stoul (conf_value conf ''direction'') = Inr direction"
    by (auto simp: load_parameters_def Let_def split: sum.splits)
  have "s' = s\<lparr>m_period := (if period = 0 then m_period s else ucast period),
                   m_length := (if len = 0 then m_length s else ucast len),
                   m_direction := (if direction = 0 then m_direction s else ucast direction)\<rparr>"
    using assms by (auto simp: load_parameters_def Let_def p l d word_greater_zero_iff split: if_splits)
  with p l d show ?thesis by blast
qed

lemma computePhases_result:
  assumes "computePhases frequencies manager s = Inr (s', warnings)"
  shows "\<exists>phases. s' = s\<lparr>m_phases := phases\<rparr>"
  using assms by (auto simp: computePhases_def Let_def split: sum.splits if_splits)

lemma load_keys_parameters:
  "m_period (load_keys conf groups s) = m_period s"
  "m_length (load_keys conf groups s) = m_length s"
  "m_direction (load_keys conf groups s) = m_direction s"
  by (simp_all add: load_keys_def Let_def split: option.splits)

text \<open>
  What the constructor stores when it completes: each of the three strings was parsed by
  \<open>std::stoul\<close>, and each parameter is its default (period 10000, length 1000,
  direction 0) when the parsed value is zero, and the parsed value cut to 32 bits
  otherwise.
\<close>

lemma setup_parameters:
  assumes "WavePlugin_new parse frequencies manager conf groups = Inr (s, warnings)"
  shows "\<exists>period len direction.
           stoul (conf_value conf ''period'') = Inr period
         \<and> stoul (conf_value conf ''length'') = Inr len
         \<and> stoul (conf_value conf ''direction'') = Inr direction
         \<and> m_period s = (if period = 0 then 10000 else ucast period)
         \<and> m_length s = (if len = 0 then 1000 else ucast len)
         \<and> m_direction s = (if direction = 0 then 0 else ucast direction)"
proof -
  from assms obtain s1 cs s4 where
    lp: "load_parameters conf (WavePlugin_init manager) = Inr s1"
    and cp: "computePhases frequencies manager
               (load_keys conf groups (s1\<lparr>m_colors := generateColorTable cs\<rparr>)) = Inr (s4, warnings)"
    and s: "s = s4\<lparr>m_buffer := (m_buffer s4)
                 \<lparr>colors := replicate (length (colors (m_buffer s4)))
                              \<lparr>red = 0, green = 0, blue = 0, alpha = 0\<rparr>\<rparr>\<rparr>"
    by (auto simp: WavePlugin_new_def Let_def split: sum.splits prod.splits)
  from computePhases_result [OF cp] obtain phases where
    s4: "s4 = (load_keys conf groups (s1\<lparr>m_colors := generateColorTable cs\<rparr>))\<lparr>m_phases := phases\<rparr>"
    by blast
  have keep: "m_period s = m_period s1" "m_length s = m_length s1" "m_direction s = m_direction s1"
    by (simp_all add: s s4 load_keys_parameters)
  from load_parameters_result [OF lp] obtain period len direction where
    p: "stoul (conf_value conf ''period'') = Inr period"
       "stoul (conf_value conf ''length'') = Inr len"
       "stoul (conf_value conf ''direction'') = Inr direction"
    and s1: "s1 = (WavePlugin_init manager)
                    \<lparr>m_period := (if period = 0 then m_period (WavePlugin_init manager) else ucast period),
                     m_length := (if len = 0 then m_length (WavePlugin_init manager) else ucast len),
                     m_direction := (if direction = 0 then m_direction (WavePlugin_init manager)
                                     else ucast direction)\<rparr>"
    by blast
  have "m_period s = (if period = 0 then 10000 else ucast period)"
    "m_length s = (if len = 0 then 1000 else ucast len)"
    "m_direction s = (if direction = 0 then 0 else ucast direction)"
    unfolding keep by (simp_all add: s1 WavePlugin_init_def)
  with p show ?thesis by blast
qed

lemma example_new:
  assumes "stoul period = Inr p"
  shows "WavePlugin_new example_parse example_frequencies example_manager
            (example_conf period ''nowhere'') example_groups
     = Inr ((WavePlugin_init example_manager)
              \<lparr>m_period := (if p = 0 then 10000 else ucast p),
               m_colors := generateColorTable [],
               m_phases := [896, 0, 0, 0, 0, 0, 0, 0],
               m_buffer := \<lparr>colors = replicate 8 \<lparr>red = 0, green = 0, blue = 0, alpha = 0\<rparr>,
                            blocks = [0, 4]\<rparr>\<rparr>,
            [(0, 1, 11)])"
proof -
  let ?conf = "example_conf period ''nowhere''"
  have lp: "load_parameters ?conf (WavePlugin_init example_manager)
      = Inr ((WavePlugin_init example_manager)\<lparr>m_period := (if p = 0 then 10000 else ucast p)\<rparr>)"
    by (simp add: load_parameters_def example_conf_def assms stoul_zero Let_def word_greater_zero_iff
          WavePlugin_init_def)
  let ?s3 = "load_keys ?conf example_groups
               ((WavePlugin_init example_manager)\<lparr>m_period := (if p = 0 then 10000 else ucast p),
                   m_colors := generateColorTable []\<rparr>)"
  have lk: "?s3 = (WavePlugin_init example_manager)\<lparr>m_period := (if p = 0 then 10000 else ucast p),
                   m_colors := generateColorTable []\<rparr>"
    by (simp add: load_keys_def example_conf_def example_groups_def)
  have cp: "computePhases example_frequencies example_manager ?s3
      = Inr (?s3\<lparr>m_phases := [896, 0, 0, 0, 0, 0, 0, 0]\<rparr>, [(0, 1, 11)])"
    unfolding lk by (rule example_computePhases_whole) (simp_all add: WavePlugin_init_def)
  have lc: "load_colors example_parse (items ?conf) [] = Inr []"
    by (simp add: example_conf_def)
  have "WavePlugin_new example_parse example_frequencies example_manager ?conf example_groups
      = Inr (?s3\<lparr>m_phases := [896, 0, 0, 0, 0, 0, 0, 0],
                 m_buffer := (m_buffer (?s3\<lparr>m_phases := [896, 0, 0, 0, 0, 0, 0, 0]\<rparr>))
                   \<lparr>colors := replicate (length (colors (m_buffer (?s3\<lparr>m_phases := [896, 0, 0, 0, 0, 0, 0, 0]\<rparr>))))
                                \<lparr>red = 0, green = 0, blue = 0, alpha = 0\<rparr>\<rparr>\<rparr>,
             [(0, 1, 11)])"
    by (simp only: WavePlugin_new_def lp lc sum.case Let_def cp old.prod.case)
  then show ?thesis
    unfolding lk by (simp add: WavePlugin_init_def example_manager_def)
qed

lemma stoul_250_plain: "stoul ''250'' = Inr 250"
  by (simp add: stoul_def isspace_def digit_value_def)

lemma stoul_two_to_32: "stoul ''4294967296'' = Inr 4294967296"
  by (simp add: stoul_def isspace_def digit_value_def)

text \<open>
  Claim C4 fails on the code. The guard \<open>if (period > 0)\<close> is there to keep the default
  for every value that is not positive, and it does so for \<open>0\<close>, as it lets \<open>250\<close>
  through. But it tests the \<open>unsigned long\<close> that \<open>std::stoul\<close> returns: \<open>-5\<close> is read as
  \<open>2 ^ 64 - 5\<close>, passes the guard, and the period becomes \<open>2 ^ 32 - 5\<close> where the claim
  keeps 10000. The same guard lets \<open>4294967296\<close> through, which the assignment to the
  \<open>unsigned\<close> member cuts to 0: the first call of \<open>render\<close> then divides by zero.
\<close>

theorem setup_negative_period:
  "map_sum id (\<lambda>r. m_period (fst r))
     (WavePlugin_new example_parse example_frequencies example_manager
        (example_conf ''0'' ''nowhere'') example_groups) = Inr 10000
   \<and> map_sum id (\<lambda>r. m_period (fst r))
        (WavePlugin_new example_parse example_frequencies example_manager
           (example_conf ''250'' ''nowhere'') example_groups) = Inr 250
   \<and> stoul ''-5'' = Inr (- 5)
   \<and> map_sum id (\<lambda>r. m_period (fst r))
        (WavePlugin_new example_parse example_frequencies example_manager
           (example_conf ''-5'' ''nowhere'') example_groups) = Inr 4294967291
   \<and> map_sum id (\<lambda>r. m_period (fst r))
        (WavePlugin_new example_parse example_frequencies example_manager
           (example_conf ''4294967296'' ''nowhere'') example_groups) = Inr 0
   \<and> (case WavePlugin_new example_parse example_frequencies example_manager
              (example_conf ''4294967296'' ''nowhere'') example_groups of
         Inl e \<Rightarrow> Inl e
       | Inr r \<Rightarrow> render_buffer 16 (fst r)) = Inl DivisionByZero"
proof -
  have "map_sum id (\<lambda>r. m_period (fst r))
     (WavePlugin_new example_parse example_frequencies example_manager
        (example_conf ''0'' ''nowhere'') example_groups) = Inr 10000"
    using example_new [OF stoul_zero] by simp
  moreover have "map_sum id (\<lambda>r. m_period (fst r))
        (WavePlugin_new example_parse example_frequencies example_manager
           (example_conf ''250'' ''nowhere'') example_groups) = Inr 250"
    using example_new [OF stoul_250_plain] by simp
  moreover have "map_sum id (\<lambda>r. m_period (fst r))
        (WavePlugin_new example_parse example_frequencies example_manager
           (example_conf ''-5'' ''nowhere'') example_groups) = Inr 4294967291"
    using example_new [OF stoul_minus_five] by simp
  moreover have "map_sum id (\<lambda>r. m_period (fst r))
        (WavePlugin_new example_parse example_frequencies example_manager
           (example_conf ''4294967296'' ''nowhere'') example_groups) = Inr 0"
    using example_new [OF stoul_two_to_32] by simp
  moreover have "(case WavePlugin_new example_parse example_frequencies example_manager
              (example_conf ''4294967296'' ''nowhere'') example_groups of
         Inl e \<Rightarrow> Inl e
       | Inr r \<Rightarrow> render_buffer 16 (fst r)) = Inl DivisionByZero"
    using example_new [OF stoul_two_to_32] by (simp add: render_buffer_def Let_def)
  ultimately show ?thesis using stoul_minus_five by simp
qed

lemma load_keys_unknown:
  assumes "\<forall>g\<in>set groups. name g \<noteq> conf_value conf ''group''"
  shows "load_keys conf groups s = s"
proof -
  have "find (\<lambda>g. name g = conf_value conf ''group'') groups = None"
    using assms by (simp add: find_None_iff)
  then show ?thesis by (simp add: load_keys_def Let_def)
qed

lemma load_keys_none:
  assumes "conf_value conf ''group'' = []"
  shows "load_keys conf groups s = s"
  using assms by (simp add: load_keys_def)

lemma load_parameters_group:
  "load_parameters (conf\<lparr>conf_value := (conf_value conf)(''group'' := grp)\<rparr>) s
     = load_parameters conf s"
  by (simp add: load_parameters_def Let_def cong: sum.case_cong)

lemma load_parameters_keys:
  assumes "load_parameters conf s = Inr s'"
  shows "m_keys s' = m_keys s"
  using load_parameters_result [OF assms] by auto

text \<open>
  Claim C9. When the configured group name is not empty and no group of the list has
  that name, the constructor does exactly what it does for the same configuration
  without a group name: the same failure or the same plugin, and a plugin it returns
  has no keys of its own, so that it runs in whole-buffer mode.
\<close>

theorem unknown_group_is_no_group:
  assumes "conf_value conf ''group'' \<noteq> []"
    and "\<forall>g\<in>set groups. name g \<noteq> conf_value conf ''group''"
  shows "WavePlugin_new parse frequencies manager conf groups
           = WavePlugin_new parse frequencies manager
               (conf\<lparr>conf_value := (conf_value conf)(''group'' := [])\<rparr>) groups
       \<and> (\<forall>s warnings. WavePlugin_new parse frequencies manager conf groups = Inr (s, warnings)
             \<longrightarrow> keys (m_keys s) = [])"
proof
  let ?conf = "conf\<lparr>conf_value := (conf_value conf)(''group'' := [])\<rparr>"
  have k: "load_keys conf groups s = s" for s
    using assms(2) by (rule load_keys_unknown)
  have k': "load_keys ?conf groups s = s" for s
    by (rule load_keys_none) simp
  show "WavePlugin_new parse frequencies manager conf groups
           = WavePlugin_new parse frequencies manager ?conf groups"
    by (simp add: WavePlugin_new_def k k' load_parameters_group Let_def cong: sum.case_cong)
  show "\<forall>s warnings. WavePlugin_new parse frequencies manager conf groups = Inr (s, warnings)
             \<longrightarrow> keys (m_keys s) = []"
  proof (intro allI impI)
    fix s warnings
    assume "WavePlugin_new parse frequencies manager conf groups = Inr (s, warnings)"
    then obtain s1 cs s4 where
      lp: "load_parameters conf (WavePlugin_init manager) = Inr s1"
      and cp: "computePhases frequencies manager (s1\<lparr>m_colors := generateColorTable cs\<rparr>)
                 = Inr (s4, warnings)"
      and s: "s = s4\<lparr>m_buffer := (m_buffer s4)
                 \<lparr>colors := replicate (length (colors (m_buffer s4)))
                              \<lparr>red = 0, green = 0, blue = 0, alpha = 0\<rparr>\<rparr>\<rparr>"
      by (auto simp: WavePlugin_new_def k Let_def split: sum.splits prod.splits)
    from computePhases_result [OF cp] obtain phases where
      "s4 = s1\<lparr>m_colors := generateColorTable cs, m_phases := phases\<rparr>"
      by blast
    then have "m_keys s = m_keys s1" by (simp add: s)
    also have "\<dots> = m_keys (WavePlugin_init manager)" using lp by (rule load_parameters_keys)
    finally show "keys (m_keys s) = []" by (simp add: WavePlugin_init_def)
  qed
qed

text \<open>
  C9 for the group name \<open>nowhere\<close> and a list whose only group is \<open>arrows\<close>: setup
  completes.
\<close>

theorem unknown_group_is_no_group_witness:
  "conf_value (example_conf ''250'' ''nowhere'') ''group'' \<noteq> []
   \<and> find (\<lambda>g. name g = conf_value (example_conf ''250'' ''nowhere'') ''group'') example_groups = None
   \<and> WavePlugin_new example_parse example_frequencies example_manager
        (example_conf ''250'' ''nowhere'') example_groups
      = WavePlugin_new example_parse example_frequencies example_manager
          (example_conf ''250'' []) example_groups
   \<and> (\<exists>s warnings. WavePlugin_new example_parse example_frequencies example_manager
          (example_conf ''250'' ''nowhere'') example_groups = Inr (s, warnings)
        \<and> keys (m_keys s) = [])"
proof -
  have a: "conf_value (example_conf ''250'' ''nowhere'') ''group'' \<noteq> []"
    by (simp add: example_conf_def)
  have b: "\<forall>g\<in>set example_groups. name g \<noteq> conf_value (example_conf ''250'' ''nowhere'') ''group''"
    by (simp add: example_conf_def example_groups_def)
  have c: "(example_conf ''250'' ''nowhere'')
             \<lparr>conf_value := (conf_value (example_conf ''250'' ''nowhere''))(''group'' := [])\<rparr>
           = example_conf ''250'' []"
    by (auto simp: example_conf_def fun_eq_iff)
  note t = unknown_group_is_no_group [OF a b, of example_parse example_frequencies example_manager,
      unfolded c]
  have f: "find (\<lambda>g. name g = conf_value (example_conf ''250'' ''nowhere'') ''group'') example_groups = None"
    using b by (simp add: find_None_iff)
  from example_new [OF stoul_250_plain] t a f show ?thesis by blast
qed

end
